theory Spec2Isabelle
  imports Complex_Main "HOL-Library.AList" "HOL-Library.Multiset"
begin

section \<open>Conventions\<close>

text \<open>
  The technical-analysis scoring engine of the repository, embedded shallowly.

  JavaScript numbers are modelled as reals: rounding, overflow and the infinities are
  outside the model. What JavaScript does when an array is read or written past its end
  is inside the model: such a read gives \<open>undefined\<close>, arithmetic on it gives
  \<open>NaN\<close>, and a write past the end extends the array. A value that may be
  \<open>null\<close> or \<open>undefined\<close> is an \<open>option\<close> whose \<open>None\<close> is the nullish value.
\<close>

section \<open>The server-side scorer: \<open>computeIndicators\<close>\<close>

datatype signal = STRONG_BUY | BUY | NEUTRAL | SELL | STRONG_SELL

text \<open>
  One element of the array that \<open>MACD.calculate\<close> of the third-party package
  \<open>technicalindicators\<close> returns. The package leaves a field \<open>undefined\<close> while its
  average is not seeded yet.
\<close>

record macd_row =
  lib_MACD :: "real option"
  lib_signal :: "real option"
  lib_histogram :: "real option"

record macd_out =
  macd_macd :: real
  macd_signal :: real
  macd_histogram :: real

record indicators =
  rsi :: real
  macd :: macd_out
  ma :: real
  maSignal :: int
  volume :: real
  volumeMa :: real
  volumeRatio :: real
  priceChange :: real
  currentPrice :: real
  totalScore :: real
  signal :: signal

text \<open>\<open>function mean(arr)\<close>: 0 on the empty array, else the sum over the length.\<close>

definition mean :: "real list \<Rightarrow> real" where
  "mean arr = (if arr = [] then 0 else sum_list arr / real (length arr))"

text \<open>\<open>arr.slice(-n)\<close>: the last \<open>n\<close> elements, the whole array when it is shorter.\<close>

definition slice_last :: "nat \<Rightarrow> 'a list \<Rightarrow> 'a list" where
  "slice_last n arr = drop (length arr - n) arr"

text \<open>\<open>x || 0\<close> on a number that may be \<open>undefined\<close>.\<close>

definition or0 :: "real option \<Rightarrow> real" where
  "or0 x = (case x of None \<Rightarrow> 0 | Some v \<Rightarrow> v)"

text \<open>
  \<open>computeIndicators(closes, volumes)\<close>. The two calls into the package
  \<open>technicalindicators\<close> are the parameters \<open>RSI_calculate\<close> and \<open>MACD_calculate\<close>
  (period 14, and 12/26/9, are fixed by the caller). \<open>oldPrice\<close> is \<open>undefined\<close> on
  the empty series, where \<open>closes[-1]\<close> is read.
\<close>

definition computeIndicators ::
  "(real list \<Rightarrow> real list) \<Rightarrow> (real list \<Rightarrow> macd_row list) \<Rightarrow> real list \<Rightarrow> real list \<Rightarrow> indicators"
where
  "computeIndicators RSI_calculate MACD_calculate closes volumes =
    (let rsiArr = RSI_calculate closes;
         rsi = (if rsiArr \<noteq> [] then last rsiArr else 50);
         macdArr = MACD_calculate closes;
         lastMacd = (if macdArr \<noteq> [] then last macdArr
                     else \<lparr>lib_MACD = Some 0, lib_signal = Some 0, lib_histogram = Some 0\<rparr>);
         ma = (if length closes \<ge> 20 then mean (slice_last 20 closes) else mean closes);
         volMa = (if length volumes \<ge> 20 then mean (slice_last 20 volumes) else mean volumes);
         currentVol = (if volumes \<noteq> [] then last volumes else 0);
         volumeRatio = (if volMa = 0 then 1 else currentVol / volMa);
         oldPrice = (if length closes \<ge> 2 then Some (closes ! (length closes - 2))
                     else if closes \<noteq> [] then Some (last closes) else None);
         newPrice = (if closes \<noteq> [] then last closes else 0);
         priceChange = (case oldPrice of
                          None \<Rightarrow> 0
                        | Some p \<Rightarrow> if p \<noteq> 0 then ((newPrice - p) / p) * 100 else 0);
         maSignal = (if newPrice > ma * 1.02 then 1
                     else if newPrice < ma * 0.98 then - 1 else (0::int));
         rsiScore = (if rsi < 30 then ((30 - rsi) / 30) * 50
                     else if rsi > 70 then - ((rsi - 70) / 30) * 50 else 0);
         macdScore = or0 (lib_histogram lastMacd) * 10;
         priceScore = priceChange * 2;
         volumeScore = (if volumeRatio > 1.5 then 30
                        else if volumeRatio > 1.0 then 15
                        else if volumeRatio > 0.5 then 0 else - 15);
         maScore = real_of_int maSignal * 20;
         totalScore = rsiScore * 0.25 + macdScore * 0.25 + priceScore * 0.25
                      + volumeScore * 0.15 + maScore * 0.1;
         signal = (if totalScore > 20 then STRONG_BUY
                   else if totalScore > 10 then BUY
                   else if totalScore \<le> - 20 then STRONG_SELL
                   else if totalScore < - 10 then SELL else NEUTRAL)
     in \<lparr>rsi = rsi,
         macd = \<lparr>macd_macd = or0 (lib_MACD lastMacd), macd_signal = or0 (lib_signal lastMacd),
                 macd_histogram = or0 (lib_histogram lastMacd)\<rparr>,
         ma = ma, maSignal = maSignal, volume = currentVol, volumeMa = volMa,
         volumeRatio = volumeRatio, priceChange = priceChange, currentPrice = newPrice,
         totalScore = totalScore, signal = signal\<rparr>)"

subsection \<open>The scoring formulas as the specification words them\<close>

definition spec_rsiScore :: "real \<Rightarrow> real" where
  "spec_rsiScore r =
     (if r < 30 then ((30 - r) / 30) * 50 else if r > 70 then - ((r - 70) / 30) * 50 else 0)"

definition spec_volumeScore :: "real \<Rightarrow> real" where
  "spec_volumeScore vr = (if vr > 1.5 then 30 else if vr > 1.0 then 15 else if vr > 0.5 then 0 else - 15)"

definition spec_maSignal :: "real \<Rightarrow> real \<Rightarrow> int" where
  "spec_maSignal price m = (if price > m * 1.02 then 1 else if price < m * 0.98 then - 1 else 0)"

definition spec_totalScore :: "indicators \<Rightarrow> real" where
  "spec_totalScore s =
     spec_rsiScore (rsi s) * 0.25
     + (macd_histogram (macd s) * 10) * 0.25
     + (priceChange s * 2) * 0.25
     + spec_volumeScore (volumeRatio s) * 0.15
     + (real_of_int (maSignal s) * 20) * 0.10"

definition spec_classify :: "real \<Rightarrow> signal" where
  "spec_classify t =
     (if t > 20 then STRONG_BUY else if t > 10 then BUY
      else if t \<le> - 20 then STRONG_SELL else if t < - 10 then SELL else NEUTRAL)"

text \<open>Concrete inputs used below: what the package returned, and two short series.\<close>

definition rsi_none :: "real list \<Rightarrow> real list" where
  "rsi_none cs = []"

definition macd_hist :: "real \<Rightarrow> real list \<Rightarrow> macd_row list" where
  "macd_hist h cs = [\<lparr>lib_MACD = Some 0, lib_signal = Some 0, lib_histogram = Some h\<rparr>]"

section \<open>The client-side indicator helpers\<close>

subsection \<open>Numbers that may be \<open>NaN\<close>\<close>

text \<open>
  \<open>calcRSI\<close> reads its input past the end when the series is not longer than the
  period, so its arithmetic is modelled on numbers that may be \<open>NaN\<close>. Every
  operation with a \<open>NaN\<close> operand gives \<open>NaN\<close>, and every comparison with \<open>NaN\<close> is
  false. \<open>jdiv\<close> gives \<open>NaN\<close> for a zero divisor: \<open>calcRSI\<close> divides by zero only as
  \<open>0/0\<close> or with a \<open>NaN\<close> dividend (when \<open>period\<close> is 0), which is \<open>NaN\<close> in JavaScript.
\<close>

datatype jsnum = NaN | Num real

fun jadd :: "jsnum \<Rightarrow> jsnum \<Rightarrow> jsnum" where
  "jadd (Num a) (Num b) = Num (a + b)"
| "jadd _ _ = NaN"

fun jsub :: "jsnum \<Rightarrow> jsnum \<Rightarrow> jsnum" where
  "jsub (Num a) (Num b) = Num (a - b)"
| "jsub _ _ = NaN"

fun jmul :: "jsnum \<Rightarrow> jsnum \<Rightarrow> jsnum" where
  "jmul (Num a) (Num b) = Num (a * b)"
| "jmul _ _ = NaN"

fun jdiv :: "jsnum \<Rightarrow> jsnum \<Rightarrow> jsnum" where
  "jdiv (Num a) (Num b) = (if b = 0 then NaN else Num (a / b))"
| "jdiv _ _ = NaN"

fun jneg :: "jsnum \<Rightarrow> jsnum" where
  "jneg (Num a) = Num (- a)"
| "jneg NaN = NaN"

fun jgt0 :: "jsnum \<Rightarrow> bool" where
  "jgt0 (Num a) = (a > 0)"
| "jgt0 NaN = False"

fun jlt0 :: "jsnum \<Rightarrow> bool" where
  "jlt0 (Num a) = (a < 0)"
| "jlt0 NaN = False"

text \<open>\<open>values[i]\<close> as an operand: \<open>undefined\<close> past the end, which arithmetic reads as \<open>NaN\<close>.\<close>

definition rd :: "real list \<Rightarrow> nat \<Rightarrow> jsnum" where
  "rd values i = (if i < length values then Num (values ! i) else NaN)"

text \<open>
  \<open>out[i] = v\<close> on an array of nullable cells; \<open>None\<close> is \<open>null\<close> or a hole, which the
  callers do not tell apart (\<open>?? 50\<close>, \<open>!= null\<close>). A write past the end extends the array.
\<close>

definition store :: "'a option list \<Rightarrow> nat \<Rightarrow> 'a \<Rightarrow> 'a option list" where
  "store out i v =
     (if i < length out then out[i := Some v]
      else out @ replicate (i - length out) None @ [Some v])"

subsection \<open>\<open>calcRSI\<close>\<close>

text \<open>The body of the first loop, on \<open>(gain, loss)\<close>.\<close>

fun rsi_seed_step :: "real list \<Rightarrow> nat \<Rightarrow> jsnum \<times> jsnum \<Rightarrow> jsnum \<times> jsnum" where
  "rsi_seed_step values i (gain, loss) =
     (let diff = jsub (rd values i) (rd values (i - 1))
      in if jgt0 diff then (jadd gain diff, loss) else (gain, jsub loss diff))"

text \<open>\<open>avgLoss === 0 ? 100 : 100 - (100 / (1 + (avgGain / avgLoss)))\<close>\<close>

fun rsi_value :: "jsnum \<times> jsnum \<Rightarrow> jsnum" where
  "rsi_value (avgGain, avgLoss) =
     (if avgLoss = Num 0 then Num 100
      else jsub (Num 100) (jdiv (Num 100) (jadd (Num 1) (jdiv avgGain avgLoss))))"

text \<open>The two assignments to \<open>avgGain\<close> and \<open>avgLoss\<close> in the body of the second loop.\<close>

fun rsi_step :: "real list \<Rightarrow> nat \<Rightarrow> nat \<Rightarrow> jsnum \<times> jsnum \<Rightarrow> jsnum \<times> jsnum" where
  "rsi_step values period i (avgGain, avgLoss) =
     (let diff = jsub (rd values i) (rd values (i - 1));
          up = (if jgt0 diff then diff else Num 0);
          down = (if jlt0 diff then jneg diff else Num 0)
      in (jdiv (jadd (jmul avgGain (Num (real period - 1))) up) (Num (real period)),
          jdiv (jadd (jmul avgLoss (Num (real period - 1))) down) (Num (real period))))"

text \<open>The second loop over the indices \<open>is\<close>, carrying the averages and the output array.\<close>

fun rsi_loop ::
  "real list \<Rightarrow> nat \<Rightarrow> nat list \<Rightarrow> jsnum \<times> jsnum \<Rightarrow> jsnum option list \<Rightarrow> jsnum option list"
where
  "rsi_loop values period [] avgs out = out"
| "rsi_loop values period (i # is) avgs out =
     (let avgs' = rsi_step values period i avgs
      in rsi_loop values period is avgs' (store out i (rsi_value avgs')))"

text \<open>\<open>avgGain\<close> and \<open>avgLoss\<close> when the first loop is left.\<close>

definition rsi_seed :: "real list \<Rightarrow> nat \<Rightarrow> jsnum \<times> jsnum" where
  "rsi_seed values period =
     (let (gain, loss) = fold (rsi_seed_step values) [1..<Suc period] (Num 0, Num 0)
      in (jdiv gain (Num (real period)), jdiv loss (Num (real period))))"

definition calcRSI :: "real list \<Rightarrow> nat \<Rightarrow> jsnum option list" where
  "calcRSI values period =
     (let out = replicate (length values) None;
          avgs = rsi_seed values period;
          out = store out period (rsi_value avgs)
      in rsi_loop values period [Suc period..<length values] avgs out)"

text \<open>
  The averages \<open>(avgGain, avgLoss)\<close> at the moment \<open>out[i]\<close> is written, for
  \<open>i \<ge> period\<close>: the seed, advanced by the loop body once for each index up to \<open>i\<close>.
\<close>

definition rsi_avgs :: "real list \<Rightarrow> nat \<Rightarrow> nat \<Rightarrow> jsnum \<times> jsnum" where
  "rsi_avgs values period i =
     fold (rsi_step values period) [Suc period..<Suc i] (rsi_seed values period)"

text \<open>Predicates on numbers and on the output array, for the statements about \<open>calcRSI\<close>.\<close>

fun nonneg :: "jsnum \<Rightarrow> bool" where
  "nonneg NaN = True"
| "nonneg (Num a) = (0 \<le> a)"

fun in_range :: "jsnum \<Rightarrow> bool" where
  "in_range NaN = True"
| "in_range (Num r) = (0 \<le> r \<and> r \<le> 100)"

definition cells_ok :: "jsnum option list \<Rightarrow> bool" where
  "cells_ok out = list_all (\<lambda>c. case c of None \<Rightarrow> True | Some v \<Rightarrow> in_range v) out"

fun is_num :: "jsnum \<Rightarrow> bool" where
  "is_num (Num a) = True"
| "is_num NaN = False"

definition both_num :: "jsnum \<times> jsnum \<Rightarrow> bool" where
  "both_num s = (is_num (fst s) \<and> is_num (snd s))"

subsection \<open>\<open>calcEMA\<close> and \<open>calcMACDHist\<close>\<close>

text \<open>
  The loop of \<open>calcEMA\<close> over the indices \<open>is\<close>, carrying \<open>ema\<close> and the output array.
  The comparisons with \<open>period - 1\<close> are on integers, as \<open>period\<close> may be 0. All reads are
  in range: the seed is computed at index \<open>period - 1\<close> of the series.
\<close>

fun ema_loop :: "real list \<Rightarrow> nat \<Rightarrow> nat list \<Rightarrow> real \<Rightarrow> real option list \<Rightarrow> real option list" where
  "ema_loop values period [] ema out = out"
| "ema_loop values period (i # is) ema out =
     (if int i < int period - 1 then ema_loop values period is ema out
      else
        let k = 2 / (real period + 1);
            ema' = (if int i = int period - 1
                    then (\<Sum>j\<leftarrow>[0..<period]. values ! j) / real period
                    else values ! i * k + ema * (1 - k))
        in ema_loop values period is ema' (out[i := Some ema']))"

definition calcEMA :: "real list \<Rightarrow> nat \<Rightarrow> real option list" where
  "calcEMA values period =
     ema_loop values period [0..<length values] 0 (replicate (length values) None)"

text \<open>The array \<open>macd\<close> of \<open>calcMACDHist\<close>.\<close>

definition macdLine :: "real list \<Rightarrow> nat \<Rightarrow> nat \<Rightarrow> real option list" where
  "macdLine values fast slow =
     (let emaFast = calcEMA values fast;
          emaSlow = calcEMA values slow
      in map (\<lambda>i. case (emaFast ! i, emaSlow ! i) of
                     (Some f, Some s) \<Rightarrow> Some (f - s)
                   | _ \<Rightarrow> None) [0..<length values])"

text \<open>
  The array \<open>signalArr\<close> of \<open>calcMACDHist\<close>: the EMA of \<open>macd\<close> with \<open>null\<close> read as 0.
  The parameter \<open>signal\<close> of the source is \<open>signalPeriod\<close> here.
\<close>

definition signalLine :: "real list \<Rightarrow> nat \<Rightarrow> nat \<Rightarrow> nat \<Rightarrow> real option list" where
  "signalLine values fast slow signalPeriod =
     (let macdForSignal = map or0 (macdLine values fast slow)
      in calcEMA macdForSignal signalPeriod)"

definition calcMACDHist :: "real list \<Rightarrow> nat \<Rightarrow> nat \<Rightarrow> nat \<Rightarrow> real option list" where
  "calcMACDHist values fast slow signalPeriod =
     (let macd = macdLine values fast slow;
          signalArr = signalLine values fast slow signalPeriod
      in map (\<lambda>i. case (macd ! i, signalArr ! i) of
                     (Some v, Some s) \<Rightarrow> Some (v - s)
                   | _ \<Rightarrow> None) [0..<length macd])"

subsection \<open>\<open>calcVolumeProfile\<close>\<close>

text \<open>\<open>volumes[i] || 0\<close>: 0 past the end of the volume series.\<close>

definition vol_at :: "real list \<Rightarrow> nat \<Rightarrow> real" where
  "vol_at volumes i = (if i < length volumes then volumes ! i else 0)"

text \<open>
  \<open>(max - min) / bins || 1\<close>: 1 when the quotient is 0. The function is called with
  20 bins; the model is for \<open>bins \<ge> 1\<close>.
\<close>

definition vp_step :: "real \<Rightarrow> real \<Rightarrow> nat \<Rightarrow> real" where
  "vp_step lo hi bins = (let q = (hi - lo) / real bins in if q = 0 then 1 else q)"

text \<open>\<open>Math.min(bins - 1, Math.max(0, Math.floor((c - min) / step)))\<close>\<close>

definition bucket_of :: "real \<Rightarrow> real \<Rightarrow> nat \<Rightarrow> real \<Rightarrow> int" where
  "bucket_of lo step bins c = min (int bins - 1) (max 0 \<lfloor>(c - lo) / step\<rfloor>)"

text \<open>The loop that fills the buckets, over the indices \<open>is\<close> of the closes.\<close>

fun fill_buckets ::
  "real \<Rightarrow> real \<Rightarrow> nat \<Rightarrow> real list \<Rightarrow> real list \<Rightarrow> nat list \<Rightarrow> real list \<Rightarrow> real list"
where
  "fill_buckets lo step bins closes volumes [] buckets = buckets"
| "fill_buckets lo step bins closes volumes (i # is) buckets =
     (let idx = nat (bucket_of lo step bins (closes ! i))
      in fill_buckets lo step bins closes volumes is
           (buckets[idx := buckets ! idx + vol_at volumes i]))"

text \<open>The loop that finds \<open>pocIdx\<close>: a later bucket wins only when strictly greater.\<close>

fun find_poc :: "real list \<Rightarrow> nat list \<Rightarrow> nat \<Rightarrow> nat" where
  "find_poc buckets [] pocIdx = pocIdx"
| "find_poc buckets (i # is) pocIdx =
     find_poc buckets is (if buckets ! i > buckets ! pocIdx then i else pocIdx)"

text \<open>The field \<open>pocPrice\<close> of the result; \<open>None\<close> is \<open>null\<close>.\<close>

definition calcVolumeProfile :: "real list \<Rightarrow> real list \<Rightarrow> nat \<Rightarrow> real option" where
  "calcVolumeProfile closes volumes bins =
     (if closes = [] then None
      else
        let lo = Min (set closes);
            hi = Max (set closes);
            step = vp_step lo hi bins;
            buckets = fill_buckets lo step bins closes volumes [0..<length closes]
                        (replicate bins 0);
            pocIdx = find_poc buckets [1..<bins] 0
        in Some (lo + real pocIdx * step))"

text \<open>
  The volume profile as the specification words it. Bucket \<open>b\<close> of the partition of the
  price range into equal-width buckets holds the closes from its lower edge up to its
  upper edge, the last bucket also the upper end of the range.
\<close>

definition in_bucket :: "real \<Rightarrow> real \<Rightarrow> nat \<Rightarrow> nat \<Rightarrow> real \<Rightarrow> bool" where
  "in_bucket lo w bins b c =
     (lo + real b * w \<le> c \<and> (c < lo + (real b + 1) * w \<or> Suc b = bins))"

definition bucket_volume :: "real list \<Rightarrow> real list \<Rightarrow> nat \<Rightarrow> nat \<Rightarrow> real" where
  "bucket_volume closes volumes bins b =
     (let lo = Min (set closes);
          w = vp_step lo (Max (set closes)) bins
      in (\<Sum>i\<leftarrow>[0..<length closes].
            if in_bucket lo w bins b (closes ! i) then vol_at volumes i else 0))"

text \<open>The first bucket with the maximum accumulated volume.\<close>

definition first_max :: "(nat \<Rightarrow> real) \<Rightarrow> nat \<Rightarrow> nat \<Rightarrow> bool" where
  "first_max vol bins p = (p < bins \<and> (\<forall>b<bins. vol b \<le> vol p) \<and> (\<forall>b<p. vol b < vol p))"

text \<open>
  The POC price as the specification words it: the midpoint of the bucket with the
  maximum accumulated volume.
\<close>

definition spec_pocPrice :: "real list \<Rightarrow> real list \<Rightarrow> nat \<Rightarrow> real option" where
  "spec_pocPrice closes volumes bins =
     (if closes = [] then None
      else
        let lo = Min (set closes);
            w = (Max (set closes) - lo) / real bins;
            vol = bucket_volume closes volumes bins;
            p = hd (filter (\<lambda>b. \<forall>b'\<in>set [0..<bins]. vol b' \<le> vol b) [0..<bins])
        in Some (lo + (real p + 1 / 2) * w))"

section \<open>The analyze endpoint\<close>

text \<open>
  \<open>app.get('/api/futures/analyze')\<close>, from the candidate list \<open>symbols\<close> on (the rows
  of the ticker table, or the tickers fetched when the table is empty). Writing each
  analysis to the database (\<open>storeAnalysis\<close>) and the time stamp have no effect on the
  response and are left out.
\<close>

text \<open>What \<open>axios.get\<close> throws: a network error, a timeout or a status outside 2xx.\<close>

datatype js_error = AxiosError

text \<open>One candle row, as the analyzer reads it: \<open>Number(k[4])\<close> and \<open>Number(k[5])\<close>.\<close>

record kline =
  k_close :: real
  k_volume :: real

text \<open>The \<open>data\<close> of a response of the provider.\<close>

datatype payload = NotAnArray | Rows "kline list"

text \<open>
  The value of the request parameter \<open>interval\<close>, as \<open>mapInterval\<close> returns it: a
  string, or the value that the object literal \<open>m\<close> of \<open>mapInterval\<close> inherits from
  \<open>Object.prototype\<close> under the given name (a function, or the prototype itself).
\<close>

datatype interval_param = Interval string | Inherited string

text \<open>
  \<open>axios.get\<close> on the klines URL with the parameters symbol, interval and limit: what
  the provider answers during one request, or the error thrown.
\<close>

type_synonym provider = "string \<Rightarrow> interval_param \<Rightarrow> nat \<Rightarrow> js_error + payload"

record ticker =
  symbol :: string
  volume_24h :: real

text \<open>
  The object \<open>analysis\<close>. Its fields \<open>current_price\<close> to \<open>signal\<close> are copies of the
  fields of \<open>ind\<close>, kept together here; \<open>total_score\<close> is \<open>score.total_score\<close>.
\<close>

record analysis =
  a_symbol :: string
  a_timeframe :: string
  a_ind :: indicators
  total_score :: real

text \<open>
  An element of \<open>analyzed\<close>. The object \<open>tfResults\<close> is an association list with one
  entry for each key, in the order of the first assignment to the key. JavaScript lists
  keys that are integers before the others; the order of the entries plays no role in
  the sum of the scores, in the number of keys or in the set of entries.
\<close>

record symbol_analysis =
  s_symbol :: string
  s_volume_24h :: real
  timeframes :: "(string \<times> analysis) list"
  avg_score :: real

record response =
  symbols :: "symbol_analysis list"
  total :: nat

text \<open>
  The names under which every object literal inherits a value from \<open>Object.prototype\<close>.
  Each of the values is a function or an object, so it counts as true.
\<close>

definition object_prototype_names :: "string list" where
  "object_prototype_names =
     [''constructor'', ''__defineGetter__'', ''__defineSetter__'', ''hasOwnProperty'',
      ''__lookupGetter__'', ''__lookupSetter__'', ''isPrototypeOf'', ''propertyIsEnumerable'',
      ''toString'', ''valueOf'', ''__proto__'', ''toLocaleString'']"

text \<open>
  \<open>m[String(iv)] || String(iv)\<close>: the entry of the table, else the value inherited
  under the name, else the label itself.
\<close>

definition mapInterval :: "string \<Rightarrow> interval_param" where
  "mapInterval iv =
     (case map_of [(''1'', ''1m''), (''3'', ''3m''), (''5'', ''5m''), (''15'', ''15m''),
                   (''30'', ''30m''), (''60'', ''1h''), (''240'', ''4h''), (''D'', ''1d''),
                   (''1m'', ''1m''), (''15m'', ''15m''), (''1h'', ''1h''), (''4h'', ''4h''),
                   (''1d'', ''1d'')] iv of
        Some v \<Rightarrow> Interval v
      | None \<Rightarrow> if iv \<in> set object_prototype_names then Inherited iv else Interval iv)"

text \<open>\<open>fetchKlines\<close>: the error of \<open>axios.get\<close> is not caught; a payload that is not an array gives \<open>[]\<close>.\<close>

definition fetchKlines :: "provider \<Rightarrow> string \<Rightarrow> string \<Rightarrow> nat \<Rightarrow> js_error + kline list" where
  "fetchKlines axios_get symb interval limit =
     (case axios_get symb (mapInterval interval) limit of
        Inl e \<Rightarrow> Inl e
      | Inr NotAnArray \<Rightarrow> Inr []
      | Inr (Rows ks) \<Rightarrow> Inr ks)"

text \<open>The object built from the candles of one symbol and timeframe.\<close>

definition mk_analysis ::
  "(real list \<Rightarrow> real list) \<Rightarrow> (real list \<Rightarrow> macd_row list) \<Rightarrow> string \<Rightarrow> string \<Rightarrow> kline list \<Rightarrow> analysis"
where
  "mk_analysis RSI_calculate MACD_calculate symb tf kl =
     (let closes = map k_close kl;
          volumes = map k_volume kl;
          ind = computeIndicators RSI_calculate MACD_calculate closes volumes
      in \<lparr>a_symbol = symb, a_timeframe = tf, a_ind = ind, total_score = totalScore ind\<rparr>)"

text \<open>
  The loop over the timeframes of one symbol. An error thrown by \<open>fetchKlines\<close> leaves
  the loop; an empty array is skipped by \<open>continue\<close>. The assignment
  \<open>tfResults[tf] = analysis\<close> adds the key \<open>tf\<close> or overwrites its value, except for the
  key \<open>__proto__\<close>: there it calls the setter that the object literal inherits from
  \<open>Object.prototype\<close>, which makes \<open>analysis\<close> the prototype of \<open>tfResults\<close> and adds no
  key, so that \<open>Object.keys\<close> and \<open>Object.values\<close> do not see it.
\<close>

fun tf_loop ::
  "(real list \<Rightarrow> real list) \<Rightarrow> (real list \<Rightarrow> macd_row list) \<Rightarrow> provider \<Rightarrow> ticker \<Rightarrow>
   string list \<Rightarrow> (string \<times> analysis) list \<Rightarrow> js_error + (string \<times> analysis) list"
where
  "tf_loop R M ax s [] tfResults = Inr tfResults"
| "tf_loop R M ax s (tf # tfs) tfResults =
     (case fetchKlines ax (symbol s) tf 500 of
        Inl e \<Rightarrow> Inl e
      | Inr kl \<Rightarrow>
          if kl = [] then tf_loop R M ax s tfs tfResults
          else if tf = ''__proto__'' then tf_loop R M ax s tfs tfResults
          else tf_loop R M ax s tfs (AList.update tf (mk_analysis R M (symbol s) tf kl) tfResults))"

text \<open>The loop over the symbols, carrying \<open>analyzed\<close>.\<close>

fun sym_loop ::
  "(real list \<Rightarrow> real list) \<Rightarrow> (real list \<Rightarrow> macd_row list) \<Rightarrow> provider \<Rightarrow> string list \<Rightarrow>
   ticker list \<Rightarrow> symbol_analysis list \<Rightarrow> js_error + symbol_analysis list"
where
  "sym_loop R M ax tfs [] analyzed = Inr analyzed"
| "sym_loop R M ax tfs (s # ss) analyzed =
     (case tf_loop R M ax s tfs [] of
        Inl e \<Rightarrow> Inl e
      | Inr tfResults \<Rightarrow>
          if tfResults \<noteq> [] then
            let avg = foldl (\<lambda>acc a. acc + total_score a) 0 (map snd tfResults)
                      / real (length tfResults)
            in sym_loop R M ax tfs ss
                 (analyzed @ [\<lparr>s_symbol = symbol s, s_volume_24h = volume_24h s,
                               timeframes = tfResults, avg_score = avg\<rparr>])
          else sym_loop R M ax tfs ss analyzed)"

text \<open>\<open>x.avg_score >= ms\<close>, where \<open>ms = Number(minScoreRaw)\<close> may be \<open>NaN\<close>.\<close>

fun ge_num :: "real \<Rightarrow> jsnum \<Rightarrow> bool" where
  "ge_num a (Num m) = (a \<ge> m)"
| "ge_num a NaN = False"

text \<open>
  \<open>arr.slice(0, limit)\<close>, where \<open>limit = parseInt(...)\<close> is \<open>NaN\<close> (\<open>None\<close>) or an
  integer: \<open>NaN\<close> counts as 0 and a negative end counts from the end of the array.
\<close>

definition slice0 :: "'a list \<Rightarrow> int option \<Rightarrow> 'a list" where
  "slice0 arr limit =
     (case limit of
        None \<Rightarrow> []
      | Some n \<Rightarrow> if n < 0 then take (nat (int (length arr) + n)) arr else take (nat n) arr)"

text \<open>
  The handler. \<open>minScoreRaw\<close> is \<open>None\<close> when the query has no \<open>min_score\<close>, else
  \<open>Number(minScoreRaw)\<close>. Both calls of \<open>sort\<close> are stable sorts in descending order.
  The result \<open>Inl\<close> is the rejection of the callback: no response is sent.
\<close>

definition analyze ::
  "(real list \<Rightarrow> real list) \<Rightarrow> (real list \<Rightarrow> macd_row list) \<Rightarrow> provider \<Rightarrow> string list \<Rightarrow>
   int option \<Rightarrow> jsnum option \<Rightarrow> ticker list \<Rightarrow> js_error + response"
where
  "analyze R M ax tfs limit minScoreRaw symbols0 =
     (let symbols1 = sort_key (\<lambda>s. - volume_24h s) symbols0
      in case sym_loop R M ax tfs (take 100 symbols1) [] of
           Inl e \<Rightarrow> Inl e
         | Inr analyzed \<Rightarrow>
             let analyzed1 = (case minScoreRaw of
                                None \<Rightarrow> analyzed
                              | Some ms \<Rightarrow> filter (\<lambda>x. ge_num (avg_score x) ms) analyzed);
                 analyzed2 = sort_key (\<lambda>x. - avg_score x) analyzed1
             in Inr \<lparr>symbols = slice0 analyzed2 limit, total = length analyzed2\<rparr>)"

text \<open>
  What holds of every element of \<open>analyzed\<close>: its map of timeframes is not empty and
  has one entry for each requested timeframe other than \<open>__proto__\<close> whose fetch gave a
  non-empty array, the entry being the analysis of those candles, and its average
  score is the mean of the total scores in the map.
\<close>

definition entry_ok ::
  "(real list \<Rightarrow> real list) \<Rightarrow> (real list \<Rightarrow> macd_row list) \<Rightarrow> provider \<Rightarrow> string list \<Rightarrow>
   symbol_analysis \<Rightarrow> bool"
where
  "entry_ok R M ax tfs x =
     (timeframes x \<noteq> []
      \<and> distinct (map fst (timeframes x))
      \<and> avg_score x = sum_list (map (\<lambda>(tf, a). total_score a) (timeframes x))
                       / real (length (timeframes x))
      \<and> (\<forall>tf a. (tf, a) \<in> set (timeframes x) \<longleftrightarrow>
            tf \<in> set tfs \<and> tf \<noteq> ''__proto__''
            \<and> (\<exists>kl. fetchKlines ax (s_symbol x) tf 500 = Inr kl \<and> kl \<noteq> []
                    \<and> a = mk_analysis R M (s_symbol x) tf kl)))"





text \<open>A provider, a ticker list and a request, used as concrete inputs below.\<close>

definition demo_macd :: "real list \<Rightarrow> macd_row list" where
  "demo_macd cs =
     [\<lparr>lib_MACD = Some 0, lib_signal = Some 0,
       lib_histogram = Some (case cs of [] \<Rightarrow> 0 | c # _ \<Rightarrow> c - 10)\<rparr>]"

definition candles :: "real \<Rightarrow> payload" where
  "candles c = Rows [\<lparr>k_close = c, k_volume = 1\<rparr>, \<lparr>k_close = c, k_volume = 1\<rparr>]"

definition demo_provider :: provider where
  "demo_provider symb interval limit =
     (if symb = ''AUSDT'' then
        (if interval = Interval ''15m'' then Inr (candles 18)
         else if interval = Interval ''1h'' then Inr NotAnArray else Inr (candles 10))
      else if symb = ''BUSDT'' then Inr (Rows [])
      else if symb = ''CUSDT'' then Inr (candles 2)
      else if symb = ''DUSDT'' then Inr (candles 10)
      else Inl AxiosError)"

definition demo_tickers :: "ticker list" where
  "demo_tickers =
     [\<lparr>symbol = ''AUSDT'', volume_24h = 1000000\<rparr>, \<lparr>symbol = ''BUSDT'', volume_24h = 2000000\<rparr>,
      \<lparr>symbol = ''CUSDT'', volume_24h = 4000000\<rparr>, \<lparr>symbol = ''DUSDT'', volume_24h = 3000000\<rparr>]"

definition demo_analyze :: "int option \<Rightarrow> jsnum option \<Rightarrow> ticker list \<Rightarrow> js_error + response" where
  "demo_analyze limit ms tickers =
     analyze rsi_none demo_macd demo_provider [''15m'', ''1h'', ''1d''] limit ms tickers"


definition proto_analyze :: "js_error + response" where
  "proto_analyze =
     analyze rsi_none demo_macd demo_provider [''__proto__'', ''15m''] (Some 10) None demo_tickers"

text \<open>A series of 27 closes, used as a concrete input below.\<close>

definition ramp :: "real list" where
  "ramp = [1, 2, 3, 4, 5, 6, 7, 8, 9, 10, 11, 12, 13, 14, 15, 16, 17, 18, 19, 20, 21, 22, 23, 24,
           25, 26, 30]"

section \<open>Properties of the scorer\<close>

lemma computeIndicators_fields:
  "rsi (computeIndicators R M cs vs) = (if R cs \<noteq> [] then last (R cs) else 50)"
  "macd_histogram (macd (computeIndicators R M cs vs)) =
     or0 (lib_histogram (if M cs \<noteq> [] then last (M cs)
            else \<lparr>lib_MACD = Some 0, lib_signal = Some 0, lib_histogram = Some 0\<rparr>))"
  "ma (computeIndicators R M cs vs) =
     (if length cs \<ge> 20 then mean (slice_last 20 cs) else mean cs)"
  "volumeMa (computeIndicators R M cs vs) =
     (if length vs \<ge> 20 then mean (slice_last 20 vs) else mean vs)"
  "volume (computeIndicators R M cs vs) = (if vs \<noteq> [] then last vs else 0)"
  "currentPrice (computeIndicators R M cs vs) = (if cs \<noteq> [] then last cs else 0)"
  by (simp_all add: computeIndicators_def Let_def)

text \<open>
  C1. The total score returned by \<open>computeIndicators\<close> is the weighted sum
  \<open>rsiScore*0.25 + macdScore*0.25 + priceScore*0.25 + volumeScore*0.15 + maScore*0.10\<close>
  of the sub-scores the specification defines from the returned snapshot (RSI bands at
  30 and 70, histogram times 10, price change times 2, the volume-ratio steps at 1.5, 1.0
  and 0.5, and the moving-average signal times 20), and the returned \<open>maSignal\<close> is +1
  above \<open>MA*1.02\<close>, -1 below \<open>MA*0.98\<close> and 0 between.
\<close>

theorem C1_totalScore_formula:
  "totalScore (computeIndicators R M cs vs) = spec_totalScore (computeIndicators R M cs vs)
   \<and> maSignal (computeIndicators R M cs vs) =
       spec_maSignal (currentPrice (computeIndicators R M cs vs)) (ma (computeIndicators R M cs vs))"
  by (simp add: computeIndicators_def Let_def spec_totalScore_def spec_rsiScore_def
        spec_volumeScore_def spec_maSignal_def)

theorem C1_totalScore_formula_witness:
  "totalScore (computeIndicators rsi_none (macd_hist 8) [100, 110] [10, 30]) = 117 / 4
   \<and> spec_totalScore (computeIndicators rsi_none (macd_hist 8) [100, 110] [10, 30]) = 117 / 4
   \<and> maSignal (computeIndicators rsi_none (macd_hist 8) [100, 110] [10, 30]) = 1"
proof -
  have t: "totalScore (computeIndicators rsi_none (macd_hist 8) [100, 110] [10, 30]) = 117 / 4"
    by (simp add: computeIndicators_def Let_def rsi_none_def macd_hist_def mean_def or0_def)
  have m: "maSignal (computeIndicators rsi_none (macd_hist 8) [100, 110] [10, 30]) = 1"
    by (simp add: computeIndicators_def Let_def rsi_none_def macd_hist_def mean_def or0_def)
  from t m C1_totalScore_formula [of rsi_none "macd_hist 8" "[100, 110]" "[10, 30]"]
  show ?thesis by simp
qed

text \<open>
  C2. The signal returned by \<open>computeIndicators\<close> is the classification of its total
  score in the order: above 20 \<open>STRONG_BUY\<close>, above 10 \<open>BUY\<close>, at most -20
  \<open>STRONG_SELL\<close>, below -10 \<open>SELL\<close>, else \<open>NEUTRAL\<close>. A total score of exactly 20 is
  a \<open>BUY\<close> and a total score of exactly -20 is a \<open>STRONG_SELL\<close>.
\<close>

theorem C2_signal_classification:
  "signal (computeIndicators R M cs vs) = spec_classify (totalScore (computeIndicators R M cs vs))
   \<and> (totalScore (computeIndicators R M cs vs) = 20 \<longrightarrow> signal (computeIndicators R M cs vs) = BUY)
   \<and> (totalScore (computeIndicators R M cs vs) = - 20
        \<longrightarrow> signal (computeIndicators R M cs vs) = STRONG_SELL)"
proof -
  have c: "signal (computeIndicators R M cs vs) = spec_classify (totalScore (computeIndicators R M cs vs))"
    by (simp add: computeIndicators_def Let_def spec_classify_def)
  show ?thesis
    unfolding c by (simp add: spec_classify_def)
qed

theorem C2_signal_classification_witness:
  "totalScore (computeIndicators rsi_none (macd_hist 8) [1, 1] [1, 1]) = 20
   \<and> signal (computeIndicators rsi_none (macd_hist 8) [1, 1] [1, 1]) = BUY
   \<and> totalScore (computeIndicators rsi_none (macd_hist (- 8)) [1, 1] [1, 1]) = - 20
   \<and> signal (computeIndicators rsi_none (macd_hist (- 8)) [1, 1] [1, 1]) = STRONG_SELL"
proof -
  have a: "totalScore (computeIndicators rsi_none (macd_hist 8) [1, 1] [1, 1]) = 20"
    by (simp add: computeIndicators_def Let_def rsi_none_def macd_hist_def mean_def or0_def)
  have b: "totalScore (computeIndicators rsi_none (macd_hist (- 8)) [1, 1] [1, 1]) = - 20"
    by (simp add: computeIndicators_def Let_def rsi_none_def macd_hist_def mean_def or0_def)
  from a b
    C2_signal_classification [of rsi_none "macd_hist 8" "[1, 1]" "[1, 1]"]
    C2_signal_classification [of rsi_none "macd_hist (- 8)" "[1, 1]" "[1, 1]"]
  show ?thesis by (simp add: spec_classify_def)
qed


lemma sum_list_all_zero: "set xs \<subseteq> {0} \<Longrightarrow> sum_list xs = (0::real)"
  by (induction xs) auto

lemma volumeMa_zero_series:
  assumes "set vs \<subseteq> {0}"
  shows "volumeMa (computeIndicators R M cs vs) = 0"
proof -
  note z = sum_list_all_zero
  have "set (slice_last 20 vs) \<subseteq> {0}"
    using assms set_drop_subset [of "length vs - 20" vs] by (auto simp: slice_last_def)
  with assms show ?thesis
    by (simp add: computeIndicators_fields mean_def z)
qed


section \<open>Properties of \<open>calcRSI\<close>\<close>

lemma rsi_seed_step_nonneg:
  "nonneg g \<Longrightarrow> nonneg l \<Longrightarrow> rsi_seed_step values i (g, l) = (g', l') \<Longrightarrow> nonneg g' \<and> nonneg l'"
  by (cases g; cases l; cases "rd values i"; cases "rd values (i - 1)")
     (auto simp: Let_def split: if_splits)

lemma fold_rsi_seed_step_nonneg:
  "nonneg (fst s) \<Longrightarrow> nonneg (snd s) \<Longrightarrow>
   nonneg (fst (fold (rsi_seed_step values) is s)) \<and> nonneg (snd (fold (rsi_seed_step values) is s))"
proof (induction "is" arbitrary: s)
  case Nil
  then show ?case by simp
next
  case (Cons i "is")
  obtain g l where s: "s = (g, l)" by (cases s)
  obtain g' l' where st: "rsi_seed_step values i (g, l) = (g', l')" by (cases "rsi_seed_step values i (g, l)")
  from Cons.prems s have "nonneg g" "nonneg l" by simp_all
  from rsi_seed_step_nonneg [OF this st] have "nonneg (fst (g', l'))" "nonneg (snd (g', l'))" by simp_all
  from Cons.IH [OF this] show ?case using s st by simp
qed

lemma jdiv_nonneg: "nonneg a \<Longrightarrow> nonneg (jdiv a (Num (real n)))"
  by (cases a) auto

lemma rsi_seed_nonneg:
  "nonneg (fst (rsi_seed values period)) \<and> nonneg (snd (rsi_seed values period))"
proof -
  let ?s = "fold (rsi_seed_step values) [1..<Suc period] (Num 0, Num 0)"
  have "nonneg (fst ?s) \<and> nonneg (snd ?s)"
    by (rule fold_rsi_seed_step_nonneg) simp_all
  then show ?thesis
    by (simp add: rsi_seed_def split_beta jdiv_nonneg)
qed

lemma wilder_nonneg:
  assumes "0 \<le> a" "0 \<le> u" "period \<noteq> 0"
  shows "0 \<le> (a * (real period - 1) + u) / real period"
proof -
  from assms(3) have "0 \<le> real period - 1" by simp
  with assms(1) have "0 \<le> a * (real period - 1)" by simp
  with assms(2) have "0 \<le> a * (real period - 1) + u" by simp
  then show ?thesis by simp
qed

lemma jdiv_zero: "jdiv a (Num 0) = NaN"
  by (cases a) simp_all

lemma jsnum_nonneg_cases:
  assumes "nonneg a"
  obtains "a = NaN" | x where "a = Num x" "0 \<le> x"
  using assms by (cases a) auto

lemma wilder_update_nonneg:
  assumes "nonneg a" "nonneg u"
  shows "nonneg (jdiv (jadd (jmul a (Num (real period - 1))) u) (Num (real period)))"
proof (cases "period = 0")
  case True
  then show ?thesis by (simp add: jdiv_zero)
next
  case False
  from assms(1) show ?thesis
  proof (cases a rule: jsnum_nonneg_cases)
    case 1
    then show ?thesis by simp
  next
    case (2 x)
    note a = this
    from assms(2) show ?thesis
    proof (cases u rule: jsnum_nonneg_cases)
      case 1
      then show ?thesis using a by simp
    next
      case (2 y)
      with a False wilder_nonneg [of x y period] show ?thesis by simp
    qed
  qed
qed

lemma rsi_step_nonneg:
  assumes "nonneg (fst s)" "nonneg (snd s)"
  shows "nonneg (fst (rsi_step values period i s)) \<and> nonneg (snd (rsi_step values period i s))"
proof -
  obtain g l where s: "s = (g, l)" by (cases s)
  let ?diff = "jsub (rd values i) (rd values (i - 1))"
  have up: "nonneg (if jgt0 ?diff then ?diff else Num 0)"
    by (cases ?diff) auto
  have down: "nonneg (if jlt0 ?diff then jneg ?diff else Num 0)"
    by (cases ?diff) auto
  from assms s have "nonneg g" "nonneg l" by simp_all
  from wilder_update_nonneg [OF this(1) up] wilder_update_nonneg [OF this(2) down]
  show ?thesis unfolding s rsi_step.simps Let_def fst_conv snd_conv by blast
qed

lemma rsi_value_in_range:
  assumes "nonneg (fst s)" "nonneg (snd s)"
  shows "in_range (rsi_value s)"
proof -
  obtain g l where s: "s = (g, l)" by (cases s)
  show ?thesis
  proof (cases g)
    case NaN
    then show ?thesis unfolding s by (cases l) auto
  next
    case (Num a)
    note g = this
    show ?thesis
    proof (cases l)
      case NaN
      then show ?thesis unfolding s g by simp
    next
      case (Num b)
      from assms s g Num have a: "0 \<le> a" and b: "0 \<le> b" by simp_all
      show ?thesis
      proof (cases "b = 0")
        case True
        then show ?thesis unfolding s g Num by simp
      next
        case False
        with b have "0 < b" by simp
        with a have q: "0 \<le> a / b" by simp
        then have d: "1 + a / b \<ge> 1" by simp
        then have nz: "1 + a / b \<noteq> 0" by simp
        from d have "100 / (1 + a / b) \<le> 100 / 1"
          by (intro divide_left_mono) simp_all
        moreover from d have "0 \<le> 100 / (1 + a / b)" by simp
        ultimately show ?thesis unfolding s g Num using False nz by simp
      qed
    qed
  qed
qed

lemma cells_ok_store: "cells_ok out \<Longrightarrow> in_range v \<Longrightarrow> cells_ok (store out i v)"
  by (auto simp: cells_ok_def store_def list_all_iff dest!: set_update_subset_insert [THEN subsetD])

lemma rsi_loop_cells_ok:
  "nonneg (fst s) \<Longrightarrow> nonneg (snd s) \<Longrightarrow> cells_ok out \<Longrightarrow> cells_ok (rsi_loop values period is s out)"
proof (induction "is" arbitrary: s out)
  case Nil
  then show ?case by simp
next
  case (Cons i "is")
  let ?s = "rsi_step values period i s"
  from rsi_step_nonneg [OF Cons.prems(1,2)]
  have n: "nonneg (fst ?s)" "nonneg (snd ?s)" by simp_all
  from rsi_value_in_range [OF n] Cons.prems(3)
  have "cells_ok (store out i (rsi_value ?s))" by (rule cells_ok_store [rotated])
  from Cons.IH [OF n this] show ?case by (simp add: Let_def)
qed

lemma calcRSI_cells_ok: "cells_ok (calcRSI values period)"
proof -
  from rsi_seed_nonneg [of "values" period]
  have n: "nonneg (fst (rsi_seed values period))" "nonneg (snd (rsi_seed values period))"
    by simp_all
  have "cells_ok (replicate (length values) None)"
    by (simp add: cells_ok_def list_all_iff)
  with rsi_value_in_range [OF n]
  have "cells_ok (store (replicate (length values) None) period (rsi_value (rsi_seed values period)))"
    by (rule cells_ok_store [rotated])
  from rsi_loop_cells_ok [OF n this] show ?thesis
    by (simp add: calcRSI_def Let_def)
qed

lemma rsi_loop_append:
  "rsi_loop vs p (xs @ ys) s out = rsi_loop vs p ys (fold (rsi_step vs p) xs s) (rsi_loop vs p xs s out)"
  by (induction xs arbitrary: s out) (simp_all add: Let_def)

lemma length_store: "i < length out \<Longrightarrow> length (store out i v) = length out"
  by (simp add: store_def)

lemma nth_store_same: "i < length out \<Longrightarrow> store out i v ! i = Some v"
  by (simp add: store_def)

lemma nth_store_other: "i < length out \<Longrightarrow> j \<noteq> i \<Longrightarrow> store out i v ! j = out ! j"
  by (simp add: store_def)

lemma length_rsi_loop:
  "\<forall>j\<in>set is. j < length out \<Longrightarrow> length (rsi_loop vs p is s out) = length out"
  by (induction "is" arbitrary: s out) (simp_all add: Let_def length_store)

lemma rsi_loop_nth_other:
  "\<forall>j\<in>set is. j < length out \<Longrightarrow> i \<notin> set is \<Longrightarrow> rsi_loop vs p is s out ! i = out ! i"
  by (induction "is" arbitrary: s out) (auto simp: Let_def length_store nth_store_other)

lemma rsi_loop_upt_nth:
  assumes "a \<le> i" "i < b" "b \<le> length out"
  shows "rsi_loop vs p [a..<b] s out ! i = Some (rsi_value (fold (rsi_step vs p) [a..<Suc i] s))"
proof -
  let ?s1 = "fold (rsi_step vs p) [a..<i] s"
  let ?o1 = "rsi_loop vs p [a..<i] s out"
  let ?s2 = "rsi_step vs p i ?s1"
  from assms have split: "[a..<b] = [a..<i] @ i # [Suc i..<b]"
    using upt_add_eq_append [of a i "b - i"] upt_conv_Cons [of i b] by simp
  from assms have len1: "length ?o1 = length out"
    by (intro length_rsi_loop) simp
  with assms have i1: "i < length ?o1" by simp
  have tail: "\<forall>j\<in>set [Suc i..<b]. j < length (store ?o1 i (rsi_value ?s2))"
    using assms len1 i1 by (simp add: length_store)
  have "rsi_loop vs p [a..<b] s out ! i
        = rsi_loop vs p [Suc i..<b] ?s2 (store ?o1 i (rsi_value ?s2)) ! i"
    unfolding split rsi_loop_append by (simp add: Let_def)
  also have "\<dots> = store ?o1 i (rsi_value ?s2) ! i"
    by (rule rsi_loop_nth_other [OF tail]) simp
  also have "\<dots> = Some (rsi_value ?s2)"
    using i1 by (rule nth_store_same)
  also from assms(1) have "?s2 = fold (rsi_step vs p) [a..<Suc i] s"
    by simp
  finally show ?thesis .
qed

lemma length_calcRSI: "period < length vs \<Longrightarrow> length (calcRSI vs period) = length vs"
  by (simp add: calcRSI_def Let_def length_rsi_loop length_store)

lemma calcRSI_nth:
  assumes "period \<le> i" "i < length vs"
  shows "calcRSI vs period ! i = Some (rsi_value (rsi_avgs vs period i))"
proof (cases "i = period")
  case True
  let ?out = "store (replicate (length vs) None) period (rsi_value (rsi_seed vs period))"
  from assms True have len: "length ?out = length vs" by (simp add: length_store)
  have "calcRSI vs period ! i = ?out ! i"
    unfolding calcRSI_def Let_def
    by (rule rsi_loop_nth_other) (simp_all add: len True)
  also have "\<dots> = Some (rsi_value (rsi_seed vs period))"
    unfolding True using assms True by (intro nth_store_same) simp
  finally show ?thesis using True by (simp add: rsi_avgs_def)
next
  case False
  let ?out = "store (replicate (length vs) None) period (rsi_value (rsi_seed vs period))"
  from assms have len: "length ?out = length vs" by (simp add: length_store)
  from False assms have "Suc period \<le> i" by simp
  from rsi_loop_upt_nth [OF this assms(2), of ?out vs period "rsi_seed vs period"] len
  show ?thesis by (simp add: calcRSI_def Let_def rsi_avgs_def)
qed

lemma calcRSI_nth_before:
  assumes "i < period" "period < length vs"
  shows "calcRSI vs period ! i = None"
proof -
  let ?out = "store (replicate (length vs) None) period (rsi_value (rsi_seed vs period))"
  from assms have len: "length ?out = length vs" by (simp add: length_store)
  have "calcRSI vs period ! i = ?out ! i"
    unfolding calcRSI_def Let_def
    using assms by (intro rsi_loop_nth_other) (simp_all add: len)
  also have "\<dots> = None"
    using assms by (simp add: nth_store_other)
  finally show ?thesis .
qed

lemma fold_fixed: "\<forall>x\<in>set xs. f x s = s \<Longrightarrow> fold f xs s = s"
  by (induction xs) simp_all

lemma rd_flat: "\<forall>v\<in>set vs. v = c \<Longrightarrow> i < length vs \<Longrightarrow> rd vs i = Num c"
  by (simp add: rd_def)

lemma rsi_seed_flat:
  assumes "\<forall>v\<in>set vs. v = c" "period < length vs" "period \<noteq> 0"
  shows "rsi_seed vs period = (Num 0, Num 0)"
proof -
  have "fold (rsi_seed_step vs) [1..<Suc period] (Num 0, Num 0) = (Num 0, Num 0)"
  proof (rule fold_fixed, rule ballI)
    fix i assume "i \<in> set [1..<Suc period]"
    with assms(2) have "i < length vs" "i - 1 < length vs" by auto
    with assms(1) have "rd vs i = Num c" "rd vs (i - 1) = Num c" by (simp_all add: rd_flat)
    then show "rsi_seed_step vs i (Num 0, Num 0) = (Num 0, Num 0)" by (simp add: Let_def)
  qed
  with assms(3) show ?thesis by (simp add: rsi_seed_def)
qed

lemma rsi_avgs_flat:
  assumes "\<forall>v\<in>set vs. v = c" "period < length vs" "period \<noteq> 0" "i < length vs"
  shows "rsi_avgs vs period i = (Num 0, Num 0)"
  unfolding rsi_avgs_def rsi_seed_flat [OF assms(1-3)]
proof (rule fold_fixed, rule ballI)
  fix j assume "j \<in> set [Suc period..<Suc i]"
  with assms(4) have "j < length vs" "j - 1 < length vs" by auto
  with assms(1) have "rd vs j = Num c" "rd vs (j - 1) = Num c" by (simp_all add: rd_flat)
  with assms(3) show "rsi_step vs period j (Num 0, Num 0) = (Num 0, Num 0)" by (simp add: Let_def)
qed


lemma rd_in_range: "i < length vs \<Longrightarrow> rd vs i = Num (vs ! i)"
  by (simp add: rd_def)

lemma rsi_seed_step_num:
  assumes "i < length vs" "both_num s"
  shows "both_num (rsi_seed_step vs i s)"
proof -
  from assms(2) obtain a b where s: "s = (Num a, Num b)"
    by (cases s; cases "fst s"; cases "snd s") (auto simp: both_num_def)
  from assms(1) have "i - 1 < length vs" by simp
  with assms(1) show ?thesis
    unfolding s by (simp add: rd_in_range Let_def both_num_def)
qed

lemma rsi_step_num:
  assumes "i < length vs" "period \<noteq> 0" "both_num s"
  shows "both_num (rsi_step vs period i s)"
proof -
  from assms(3) obtain a b where s: "s = (Num a, Num b)"
    by (cases s; cases "fst s"; cases "snd s") (auto simp: both_num_def)
  from assms(1) have "i - 1 < length vs" by simp
  with assms(1,2) show ?thesis
    unfolding s by (simp add: rd_in_range Let_def both_num_def)
qed

lemma rsi_seed_num:
  assumes "period < length vs" "period \<noteq> 0"
  shows "both_num (rsi_seed vs period)"
proof -
  have "both_num (fold (rsi_seed_step vs) [1..<Suc period] (Num 0, Num 0))"
  proof (rule fold_invariant [where Q = "\<lambda>i. i < length vs"])
    show "both_num (Num 0, Num 0)" by (simp add: both_num_def)
  next
    fix i assume "i \<in> set [1..<Suc period]"
    with assms(1) show "i < length vs" by auto
  qed (rule rsi_seed_step_num)
  then obtain a b where "fold (rsi_seed_step vs) [1..<Suc period] (Num 0, Num 0) = (Num a, Num b)"
    by (cases "fold (rsi_seed_step vs) [1..<Suc period] (Num 0, Num 0)";
        cases "fst (fold (rsi_seed_step vs) [1..<Suc period] (Num 0, Num 0))";
        cases "snd (fold (rsi_seed_step vs) [1..<Suc period] (Num 0, Num 0))")
       (auto simp: both_num_def)
  with assms(2) show ?thesis by (simp add: rsi_seed_def both_num_def)
qed

lemma rsi_avgs_num:
  assumes "period < length vs" "period \<noteq> 0" "i < length vs"
  shows "both_num (rsi_avgs vs period i)"
  unfolding rsi_avgs_def
proof (rule fold_invariant [where Q = "\<lambda>j. j < length vs"])
  show "both_num (rsi_seed vs period)" using assms(1,2) by (rule rsi_seed_num)
next
  fix j assume "j \<in> set [Suc period..<Suc i]"
  with assms(3) show "j < length vs" by auto
next
  fix j s assume "j < length vs" "both_num s"
  then show "both_num (rsi_step vs period j s)" using assms(2) by (intro rsi_step_num)
qed

lemma rsi_avgs_nonneg:
  "nonneg (fst (rsi_avgs vs period i)) \<and> nonneg (snd (rsi_avgs vs period i))"
  unfolding rsi_avgs_def
proof (rule fold_invariant [where Q = "\<lambda>j. True" and P = "\<lambda>s. nonneg (fst s) \<and> nonneg (snd s)"])
  show "nonneg (fst (rsi_seed vs period)) \<and> nonneg (snd (rsi_seed vs period))"
    by (rule rsi_seed_nonneg)
next
  fix j s assume "nonneg (fst s) \<and> nonneg (snd s)"
  then show "nonneg (fst (rsi_step vs period j s)) \<and> nonneg (snd (rsi_step vs period j s))"
    by (intro rsi_step_nonneg) simp_all
qed simp

lemma rsi_value_num:
  assumes "both_num s" "nonneg (fst s)" "nonneg (snd s)"
  shows "is_num (rsi_value s)"
proof -
  from assms(1) obtain a b where s: "s = (Num a, Num b)"
    by (cases s; cases "fst s"; cases "snd s") (auto simp: both_num_def)
  from assms(2,3) s have a: "0 \<le> a" and b: "0 \<le> b" by simp_all
  show ?thesis
  proof (cases "b = 0")
    case True
    then show ?thesis unfolding s by simp
  next
    case False
    with a b have "0 \<le> a / b" by simp
    then have "1 + a / b \<noteq> 0" by simp
    with False show ?thesis unfolding s by simp
  qed
qed

lemma calcRSI_defined:
  assumes "period < length vs" "period \<noteq> 0" "i < length vs"
  shows "if i < period then calcRSI vs period ! i = None
         else (\<exists>r. calcRSI vs period ! i = Some (Num r) \<and> 0 \<le> r \<and> r \<le> 100)"
proof (cases "i < period")
  case True
  with assms(1) show ?thesis by (simp add: calcRSI_nth_before)
next
  case False
  then have pi: "period \<le> i" by simp
  let ?s = "rsi_avgs vs period i"
  from rsi_avgs_nonneg [of vs period i] have n: "nonneg (fst ?s)" "nonneg (snd ?s)" by simp_all
  from rsi_value_num [OF rsi_avgs_num [OF assms] n]
  obtain r where r: "rsi_value ?s = Num r" by (cases "rsi_value ?s") simp_all
  with rsi_value_in_range [OF n] have "0 \<le> r \<and> r \<le> 100" by simp
  with r calcRSI_nth [OF pi assms(3)] False show ?thesis by simp
qed

text \<open>
  On a series not longer than the period the first loop reads past the end of the
  series, and the cell written at the index \<open>period\<close>, past the end of the output, is
  \<open>NaN\<close>.
\<close>

lemma calcRSI_short_series:
  "calcRSI [1, 2, 3] 14 = replicate 14 None @ [Some NaN]"
  by code_simp

text \<open>
  C8. Every number in the array returned by \<open>calcRSI\<close> lies in the closed interval
  from 0 to 100, for every series and every period (14 in particular). The cells before
  the period are \<open>null\<close>; on a series not longer than the period the only other cell
  is \<open>NaN\<close>, which is not a number (\<open>calcRSI_defined\<close> shows that a longer series
  has a number at every index from the period on).
\<close>

theorem C8_rsi_bounds:
  "i < length (calcRSI vs period) \<Longrightarrow> calcRSI vs period ! i = Some (Num r) \<Longrightarrow> 0 \<le> r \<and> r \<le> 100"
  using calcRSI_cells_ok [of vs period]
  by (auto simp: cells_ok_def list_all_length)

theorem C8_rsi_bounds_witness:
  "15 < length (calcRSI [1, 2, 3, 2, 5, 6, 7, 8, 9, 10, 11, 12, 13, 14, 15, 14] 14)
   \<and> calcRSI [1, 2, 3, 2, 5, 6, 7, 8, 9, 10, 11, 12, 13, 14, 15, 14] 14 ! 15 = Some (Num (3250 / 37))
   \<and> (0::real) \<le> 3250 / 37 \<and> (3250::real) / 37 \<le> 100"
proof -
  have l: "15 < length (calcRSI [1, 2, 3, 2, 5, 6, 7, 8, 9, 10, 11, 12, 13, 14, 15, 14] 14)"
    by (simp add: length_calcRSI)
  have v: "calcRSI [1, 2, 3, 2, 5, 6, 7, 8, 9, 10, 11, 12, 13, 14, 15, 14] 14 ! 15
           = Some (Num (3250 / 37))"
    by code_simp
  from l v C8_rsi_bounds [OF l v] show ?thesis by simp
qed

text \<open>
  C5. Whenever \<open>avgLoss\<close> is 0 at the moment \<open>calcRSI\<close> writes index \<open>i\<close> (the seed
  index \<open>period\<close> or a later index of the series), the value written is exactly 100,
  whatever \<open>avgGain\<close> is. In particular, on a flat series of 20 or more identical
  closes, \<open>calcRSI\<close> with period 14 is 100 at every index from 14 on.
\<close>

theorem C5_zero_loss_rsi_100:
  "(period \<le> i \<and> i < length vs \<and> snd (rsi_avgs vs period i) = Num 0
      \<longrightarrow> calcRSI vs period ! i = Some (Num 100))
   \<and> ((\<forall>v\<in>set vs. v = c) \<and> 20 \<le> length vs \<and> 14 \<le> i \<and> i < length vs
      \<longrightarrow> snd (rsi_avgs vs 14 i) = Num 0 \<and> calcRSI vs 14 ! i = Some (Num 100))"
proof -
  have zero: "calcRSI xs p ! j = Some (Num 100)"
    if a: "p \<le> j" "j < length xs" "snd (rsi_avgs xs p j) = Num 0" for xs p j
  proof -
    obtain g l where gl: "rsi_avgs xs p j = (g, l)" by (cases "rsi_avgs xs p j")
    with a(3) have "l = Num 0" by simp
    with calcRSI_nth [OF a(1,2)] gl show ?thesis by simp
  qed
  have flat: "snd (rsi_avgs vs 14 i) = Num 0"
    if b: "\<forall>v\<in>set vs. v = c" "20 \<le> length vs" "i < length vs"
  proof -
    from b(2) have "14 < length vs" by simp
    from rsi_avgs_flat [OF b(1) this _ b(3)] show ?thesis by simp
  qed
  from zero [of period i vs] zero [of 14 i vs] flat show ?thesis by blast
qed

theorem C5_zero_loss_rsi_100_witness:
  "snd (rsi_avgs [1, 2, 3, 4, 5, 6, 7, 8, 9, 10, 11, 12, 13, 14, 15, 16] 14 15) = Num 0
   \<and> calcRSI [1, 2, 3, 4, 5, 6, 7, 8, 9, 10, 11, 12, 13, 14, 15, 16] 14 ! 15 = Some (Num 100)
   \<and> calcRSI (replicate 20 5) 14 ! 19 = Some (Num 100)"
proof -
  have h: "snd (rsi_avgs [1, 2, 3, 4, 5, 6, 7, 8, 9, 10, 11, 12, 13, 14, 15, 16] 14 15) = Num 0"
    by code_simp
  from h
    C5_zero_loss_rsi_100 [of 14 15 "[1, 2, 3, 4, 5, 6, 7, 8, 9, 10, 11, 12, 13, 14, 15, 16]"]
    C5_zero_loss_rsi_100 [of 14 19 "replicate 20 5" 5]
  show ?thesis by simp
qed

section \<open>Properties of \<open>calcEMA\<close> and \<open>calcMACDHist\<close>\<close>

lemma length_ema_loop: "length (ema_loop vs p is ema out) = length out"
  by (induction "is" arbitrary: ema out) (simp_all add: Let_def)

lemma length_calcEMA: "length (calcEMA vs p) = length vs"
  by (simp add: calcEMA_def length_ema_loop)

lemma update_Some_None_iff:
  "i < length out \<Longrightarrow> (out[j := Some e] ! i = None) = (i \<noteq> j \<and> out ! i = None)"
  by (cases "i = j") auto

lemma ema_loop_None_iff:
  "i < length out \<Longrightarrow>
   (ema_loop vs p is ema out ! i = None) = (out ! i = None \<and> (i \<in> set is \<longrightarrow> int i < int p - 1))"
proof (induction "is" arbitrary: ema out)
  case Nil
  then show ?case by simp
next
  case (Cons j "is")
  show ?case
  proof (cases "int j < int p - 1")
    case True
    with Cons show ?thesis by auto
  next
    case False
    let ?e = "if int j = int p - 1 then (\<Sum>k\<leftarrow>[0..<p]. vs ! k) / real p
              else vs ! j * (2 / (real p + 1)) + ema * (1 - 2 / (real p + 1))"
    from Cons.prems have "i < length (out[j := Some ?e])" by simp
    from Cons.IH [OF this, of ?e] False Cons.prems show ?thesis
      by (auto simp: Let_def update_Some_None_iff)
  qed
qed

lemma calcEMA_None_iff:
  "i < length vs \<Longrightarrow> (calcEMA vs p ! i = None) = (int i < int p - 1)"
  by (simp add: calcEMA_def ema_loop_None_iff)

lemma macdLine_nth:
  "i < length vs \<Longrightarrow>
   macdLine vs fast slow ! i =
     (case (calcEMA vs fast ! i, calcEMA vs slow ! i) of
        (Some f, Some s) \<Rightarrow> Some (f - s)
      | _ \<Rightarrow> None)"
  by (simp add: macdLine_def Let_def split: option.splits)

lemma length_macdLine: "length (macdLine vs fast slow) = length vs"
  by (simp add: macdLine_def Let_def)

lemma length_signalLine: "length (signalLine vs fast slow sp) = length vs"
  by (simp add: signalLine_def Let_def length_calcEMA length_macdLine)

lemma macdLine_Some_slow:
  assumes "i < length vs" "macdLine vs fast slow ! i = Some m"
  shows "\<not> int i < int slow - 1"
proof
  assume "int i < int slow - 1"
  with assms(1) have "calcEMA vs slow ! i = None" by (simp add: calcEMA_None_iff)
  with assms show False by (simp add: macdLine_nth split: option.splits)
qed

lemma hist_defined:
  assumes "i < length vs" "sp \<le> slow" "macdLine vs fast slow ! i = Some m"
  shows "\<exists>s. signalLine vs fast slow sp ! i = Some s \<and> calcMACDHist vs fast slow sp ! i = Some (m - s)"
proof -
  from macdLine_Some_slow [OF assms(1,3)] assms(2) have "\<not> int i < int sp - 1" by simp
  moreover from assms(1) have "i < length (map or0 (macdLine vs fast slow))"
    by (simp add: length_macdLine)
  ultimately have "calcEMA (map or0 (macdLine vs fast slow)) sp ! i \<noteq> None"
    by (simp add: calcEMA_None_iff)
  then obtain s where s: "signalLine vs fast slow sp ! i = Some s"
    by (auto simp: signalLine_def Let_def)
  with assms(1,3) have "calcMACDHist vs fast slow sp ! i = Some (m - s)"
    by (simp add: calcMACDHist_def Let_def length_macdLine)
  with s show ?thesis by simp
qed

text \<open>
  C6. With the periods 12, 26 and 9: the MACD line at an index of the series is the
  difference of the two EMAs there, and \<open>null\<close> where either EMA is \<open>null\<close>; the signal
  line is the EMA(9) of the MACD line with \<open>null\<close> read as 0; and at every index where
  the MACD line is defined the signal line is defined too and the histogram of
  \<open>calcMACDHist\<close> is the MACD line minus the signal line.
\<close>

theorem C6_histogram_relation:
  assumes "i < length vs"
  shows "macdLine vs 12 26 ! i =
           (case (calcEMA vs 12 ! i, calcEMA vs 26 ! i) of
              (Some f, Some s) \<Rightarrow> Some (f - s)
            | _ \<Rightarrow> None)
    \<and> signalLine vs 12 26 9 =
        calcEMA (map (\<lambda>v. case v of None \<Rightarrow> 0 | Some x \<Rightarrow> x) (macdLine vs 12 26)) 9
    \<and> (\<forall>m. macdLine vs 12 26 ! i = Some m \<longrightarrow>
          (\<exists>s. signalLine vs 12 26 9 ! i = Some s \<and> calcMACDHist vs 12 26 9 ! i = Some (m - s)))"
proof (intro conjI allI impI)
  show "macdLine vs 12 26 ! i =
           (case (calcEMA vs 12 ! i, calcEMA vs 26 ! i) of
              (Some f, Some s) \<Rightarrow> Some (f - s)
            | _ \<Rightarrow> None)"
    using assms by (rule macdLine_nth)
next
  have "or0 = (\<lambda>v. case v of None \<Rightarrow> 0 | Some x \<Rightarrow> x)"
    by (rule ext) (simp add: or0_def)
  then show "signalLine vs 12 26 9 =
        calcEMA (map (\<lambda>v. case v of None \<Rightarrow> 0 | Some x \<Rightarrow> x) (macdLine vs 12 26)) 9"
    by (simp add: signalLine_def Let_def)
next
  fix m assume "macdLine vs 12 26 ! i = Some m"
  with assms show "\<exists>s. signalLine vs 12 26 9 ! i = Some s \<and> calcMACDHist vs 12 26 9 ! i = Some (m - s)"
    by (intro hist_defined) simp_all
qed

theorem C6_histogram_relation_witness:
  "26 < length ramp
   \<and> macdLine ramp 12 26 ! 26 = Some (847 / 117)
   \<and> signalLine ramp 12 26 9 ! 26 = Some (7511 / 2925)
   \<and> calcMACDHist ramp 12 26 9 ! 26 = Some (847 / 117 - 7511 / 2925)"
proof -
  have l: "26 < length ramp" by (simp add: ramp_def)
  have m: "macdLine ramp 12 26 ! 26 = Some (847 / 117)" by code_simp
  have s: "signalLine ramp 12 26 9 ! 26 = Some (7511 / 2925)" by code_simp
  from C6_histogram_relation [OF l]
  have "\<forall>m. macdLine ramp 12 26 ! 26 = Some m \<longrightarrow>
          (\<exists>s. signalLine ramp 12 26 9 ! 26 = Some s
             \<and> calcMACDHist ramp 12 26 9 ! 26 = Some (m - s))"
    by (elim conjE)
  with m obtain s' where s': "signalLine ramp 12 26 9 ! 26 = Some s'"
    and h: "calcMACDHist ramp 12 26 9 ! 26 = Some (847 / 117 - s')"
    by blast
  from s s' have "s' = 7511 / 2925" by simp
  with l m s h show ?thesis by simp
qed

section \<open>Properties of the analyze endpoint\<close>

lemma tf_loop_distinct:
  "tf_loop R M ax s tfs acc = Inr res \<Longrightarrow> distinct (map fst acc) \<Longrightarrow> distinct (map fst res)"
proof (induction tfs arbitrary: acc)
  case Nil
  then show ?case by simp
next
  case (Cons tf tfs)
  then show ?case
    by (auto split: sum.splits if_splits simp: distinct_update)
qed

lemma tf_loop_map_of:
  "tf_loop R M ax s tfs acc = Inr res \<Longrightarrow>
   map_of res tf = Some a \<longleftrightarrow>
     (tf \<in> set tfs \<and> tf \<noteq> ''__proto__''
        \<and> (\<exists>kl. fetchKlines ax (symbol s) tf 500 = Inr kl \<and> kl \<noteq> []
                \<and> a = mk_analysis R M (symbol s) tf kl))
     \<or> (\<not> (tf \<in> set tfs \<and> tf \<noteq> ''__proto__''
              \<and> (\<exists>kl. fetchKlines ax (symbol s) tf 500 = Inr kl \<and> kl \<noteq> []))
        \<and> map_of acc tf = Some a)"
proof (induction tfs arbitrary: acc)
  case Nil
  then show ?case by simp
next
  case (Cons t tfs)
  from Cons.prems obtain kl where kl: "fetchKlines ax (symbol s) t 500 = Inr kl"
    by (auto split: sum.splits)
  show ?case
  proof (cases "kl = [] \<or> t = ''__proto__''")
    case True
    with Cons.prems kl have "tf_loop R M ax s tfs acc = Inr res"
      by (auto split: if_splits)
    from Cons.IH [OF this] kl True show ?thesis by auto
  next
    case False
    with Cons.prems kl
    have "tf_loop R M ax s tfs (AList.update t (mk_analysis R M (symbol s) t kl) acc) = Inr res"
      by simp
    from Cons.IH [OF this] kl False show ?thesis
      by (auto simp: update_conv')
  qed
qed

lemma foldl_add_sum_list:
  "foldl (\<lambda>acc a. acc + f a) z xs = z + sum_list (map f xs)" for z :: real
  by (induction xs arbitrary: z) simp_all

lemma tf_loop_entry_ok:
  assumes "tf_loop R M ax s tfs [] = Inr res" "res \<noteq> []"
  shows "entry_ok R M ax tfs
           \<lparr>s_symbol = symbol s, s_volume_24h = volume_24h s, timeframes = res,
            avg_score = foldl (\<lambda>acc a. acc + total_score a) 0 (map snd res) / real (length res)\<rparr>"
proof -
  from tf_loop_distinct [OF assms(1)] have d: "distinct (map fst res)" by simp
  have s: "foldl (\<lambda>acc a. acc + total_score a) 0 (map snd res)
           = sum_list (map (\<lambda>(tf, a). total_score a) res)"
    by (simp add: foldl_add_sum_list comp_def split_def)
  have m: "(tf, a) \<in> set res \<longleftrightarrow>
            tf \<in> set tfs \<and> tf \<noteq> ''__proto__''
            \<and> (\<exists>kl. fetchKlines ax (symbol s) tf 500 = Inr kl \<and> kl \<noteq> []
                    \<and> a = mk_analysis R M (symbol s) tf kl)" for tf a
  proof -
    from d have "(tf, a) \<in> set res \<longleftrightarrow> map_of res tf = Some a"
      by (rule map_of_eq_Some_iff [symmetric])
    also from tf_loop_map_of [OF assms(1), of tf a]
    have "map_of res tf = Some a \<longleftrightarrow>
            tf \<in> set tfs \<and> tf \<noteq> ''__proto__''
            \<and> (\<exists>kl. fetchKlines ax (symbol s) tf 500 = Inr kl \<and> kl \<noteq> []
                    \<and> a = mk_analysis R M (symbol s) tf kl)"
      by simp
    finally show ?thesis .
  qed
  show ?thesis
    unfolding entry_ok_def
  proof (intro conjI allI)
    show "timeframes \<lparr>s_symbol = symbol s, s_volume_24h = volume_24h s, timeframes = res,
            avg_score = foldl (\<lambda>acc a. acc + total_score a) 0 (map snd res) / real (length res)\<rparr> \<noteq> []"
      using assms(2) by simp
  qed (simp_all add: d s m)
qed

lemma sym_loop_entry_ok:
  "sym_loop R M ax tfs ss acc = Inr res \<Longrightarrow> \<forall>x\<in>set acc. entry_ok R M ax tfs x \<Longrightarrow>
   \<forall>x\<in>set res. entry_ok R M ax tfs x"
proof (induction ss arbitrary: acc)
  case Nil
  then show ?case by simp
next
  case (Cons s ss)
  from Cons.prems(1) obtain tfR where t: "tf_loop R M ax s tfs [] = Inr tfR"
    by (auto split: sum.splits)
  show ?case
  proof (cases "tfR = []")
    case True
    with Cons.prems(1) t have "sym_loop R M ax tfs ss acc = Inr res" by simp
    from Cons.IH [OF this Cons.prems(2)] show ?thesis .
  next
    case False
    let ?x = "\<lparr>s_symbol = symbol s, s_volume_24h = volume_24h s, timeframes = tfR,
               avg_score = foldl (\<lambda>acc a. acc + total_score a) 0 (map snd tfR) / real (length tfR)\<rparr>"
    from Cons.prems(1) t False have l: "sym_loop R M ax tfs ss (acc @ [?x]) = Inr res"
      by (simp add: Let_def)
    from tf_loop_entry_ok [OF t False] Cons.prems(2)
    have "\<forall>x\<in>set (acc @ [?x]). entry_ok R M ax tfs x" by simp
    from Cons.IH [OF l this] show ?thesis .
  qed
qed

lemma set_slice0: "set (slice0 xs l) \<subseteq> set xs"
  by (auto simp: slice0_def split: option.splits dest: in_set_takeD)

lemma analyze_Inr:
  assumes "analyze R M ax tfs limit ms symbols0 = Inr resp"
  obtains analyzed where
    "sym_loop R M ax tfs (take 100 (sort_key (\<lambda>s. - volume_24h s) symbols0)) [] = Inr analyzed"
    "resp = \<lparr>symbols = slice0 (sort_key (\<lambda>x. - avg_score x)
                (case ms of None \<Rightarrow> analyzed | Some m \<Rightarrow> filter (\<lambda>x. ge_num (avg_score x) m) analyzed)) limit,
             total = length (case ms of None \<Rightarrow> analyzed | Some m \<Rightarrow> filter (\<lambda>x. ge_num (avg_score x) m) analyzed)\<rparr>"
  using assms by (auto simp: analyze_def Let_def split: sum.splits)

lemma analyze_symbols_subset:
  assumes "analyze R M ax tfs limit ms symbols0 = Inr resp"
    and "sym_loop R M ax tfs (take 100 (sort_key (\<lambda>s. - volume_24h s) symbols0)) [] = Inr analyzed"
  shows "set (symbols resp) \<subseteq> set analyzed"
proof -
  from assms(1) obtain an where an: 
    "sym_loop R M ax tfs (take 100 (sort_key (\<lambda>s. - volume_24h s) symbols0)) [] = Inr an"
    and r: "resp = \<lparr>symbols = slice0 (sort_key (\<lambda>x. - avg_score x)
                (case ms of None \<Rightarrow> an | Some m \<Rightarrow> filter (\<lambda>x. ge_num (avg_score x) m) an)) limit,
             total = length (case ms of None \<Rightarrow> an | Some m \<Rightarrow> filter (\<lambda>x. ge_num (avg_score x) m) an)\<rparr>"
    by (rule analyze_Inr)
  from an assms(2) have "an = analyzed" by simp
  with r set_slice0 [of "sort_key (\<lambda>x. - avg_score x)
                (case ms of None \<Rightarrow> analyzed | Some m \<Rightarrow> filter (\<lambda>x. ge_num (avg_score x) m) analyzed)" limit]
  show ?thesis by (auto split: option.splits)
qed

lemma tf_loop_fail:
  "tf \<in> set tfs \<Longrightarrow> fetchKlines ax (symbol s) tf 500 = Inl e \<Longrightarrow> tf_loop R M ax s tfs acc = Inl AxiosError"
proof (induction tfs arbitrary: acc)
  case Nil
  then show ?case by simp
next
  case (Cons t tfs)
  show ?case
  proof (cases "fetchKlines ax (symbol s) t 500")
    case (Inl e')
    then show ?thesis by (cases e') simp
  next
    case (Inr kl)
    with Cons.prems have "tf \<in> set tfs" by auto
    from Cons.IH [OF this Cons.prems(2)] Inr show ?thesis by simp
  qed
qed

lemma sym_loop_fail:
  "s \<in> set ss \<Longrightarrow> tf_loop R M ax s tfs [] = Inl e \<Longrightarrow> sym_loop R M ax tfs ss acc = Inl AxiosError"
proof (induction ss arbitrary: acc)
  case Nil
  then show ?case by simp
next
  case (Cons t ss)
  show ?case
  proof (cases "tf_loop R M ax t tfs []")
    case (Inl e')
    then show ?thesis by (cases e') simp
  next
    case (Inr r)
    with Cons.prems have "s \<in> set ss" by auto
    from Cons.IH [OF this Cons.prems(2)] Inr show ?thesis by (simp add: Let_def)
  qed
qed

lemma demo_analyze_Inr:
  "\<not> isl (demo_analyze (Some 10) None demo_tickers)"
  "\<not> isl (demo_analyze (Some 1) (Some (Num (- 15))) demo_tickers)"
  "\<not> isl (demo_analyze (Some (- 1)) None demo_tickers)"
  "\<not> isl proto_analyze"
  by code_simp+


lemma entry_ok_member:
  assumes "entry_ok R M ax tfs x" "(tf, a) \<in> set (timeframes x)"
  shows "tf \<in> set tfs \<and> tf \<noteq> ''__proto__''
         \<and> (\<exists>kl. fetchKlines ax (s_symbol x) tf 500 = Inr kl \<and> kl \<noteq> [])"
proof -
  from assms(1)
  have A: "\<forall>tf a. (tf, a) \<in> set (timeframes x) \<longleftrightarrow>
            tf \<in> set tfs \<and> tf \<noteq> ''__proto__''
            \<and> (\<exists>kl. fetchKlines ax (s_symbol x) tf 500 = Inr kl \<and> kl \<noteq> []
                    \<and> a = mk_analysis R M (s_symbol x) tf kl)"
    unfolding entry_ok_def by (elim conjE)
  from A [rule_format, of tf a] assms(2)
  have "tf \<in> set tfs \<and> tf \<noteq> ''__proto__''
        \<and> (\<exists>kl. fetchKlines ax (s_symbol x) tf 500 = Inr kl \<and> kl \<noteq> []
                \<and> a = mk_analysis R M (s_symbol x) tf kl)"
    by (rule iffD1)
  then show ?thesis by auto
qed

text \<open>
  C3 (what the code does). In every response of the analyzer, each symbol's average
  score is the arithmetic mean of the total scores in its map of timeframes, and that
  map is not empty and holds exactly the requested timeframes other than \<open>__proto__\<close>
  whose fetch gave a non-empty candle array, each with the analysis of those candles.
  A timeframe without candles has no entry, and a symbol without an entry is not in
  the response. A timeframe with the label \<open>__proto__\<close> that produced a result has no
  entry either and does not count in the average.
\<close>

theorem C3_avg_over_own_keys:
  assumes "analyze R M ax tfs limit ms symbols0 = Inr resp"
  shows "(\<forall>x\<in>set (symbols resp). entry_ok R M ax tfs x)
    \<and> (\<forall>symb. (\<forall>tf\<in>set tfs. tf \<noteq> ''__proto__'' \<longrightarrow>
                  (\<forall>kl. fetchKlines ax symb tf 500 = Inr kl \<longrightarrow> kl = []))
          \<longrightarrow> symb \<notin> s_symbol ` set (symbols resp))"
proof -
  from assms obtain an where an: 
    "sym_loop R M ax tfs (take 100 (sort_key (\<lambda>s. - volume_24h s) symbols0)) [] = Inr an"
    by (rule analyze_Inr)
  from sym_loop_entry_ok [OF an] have "\<forall>x\<in>set an. entry_ok R M ax tfs x" by simp
  with analyze_symbols_subset [OF assms an]
  have ok: "\<forall>x\<in>set (symbols resp). entry_ok R M ax tfs x" by blast
  have "symb \<notin> s_symbol ` set (symbols resp)"
    if z: "\<forall>tf\<in>set tfs. tf \<noteq> ''__proto__'' \<longrightarrow>
             (\<forall>kl. fetchKlines ax symb tf 500 = Inr kl \<longrightarrow> kl = [])" for symb
  proof
    assume "symb \<in> s_symbol ` set (symbols resp)"
    then obtain x where x: "x \<in> set (symbols resp)" "s_symbol x = symb" by auto
    with ok have e: "entry_ok R M ax tfs x" by simp
    then have "timeframes x \<noteq> []" by (simp add: entry_ok_def)
    then obtain p ps where "timeframes x = p # ps" by (cases "timeframes x") auto
    then have "(fst p, snd p) \<in> set (timeframes x)" by simp
    from entry_ok_member [OF e this] x(2)
    obtain kl where k: "fst p \<in> set tfs" "fst p \<noteq> ''__proto__''"
      "fetchKlines ax symb (fst p) 500 = Inr kl" "kl \<noteq> []"
      by auto
    from z [rule_format, OF k(1,2,3)] k(4) show False by simp
  qed
  with ok show ?thesis by blast
qed

text \<open>
  The request with the timeframes \<open>__proto__\<close> and \<open>15m\<close>: for the symbol AUSDT both
  fetches give candles, with the total scores 0 and 20, whose mean is 10; the response
  holds the key \<open>15m\<close> alone and the average 20. The request with the timeframes
  \<open>15m\<close>, \<open>1h\<close> and \<open>1d\<close>, where \<open>1h\<close> gives no candles for AUSDT: the response holds the
  other two keys and their mean.
\<close>

theorem C3_avg_over_own_keys_witness:
  "fetchKlines demo_provider ''AUSDT'' ''__proto__'' 500
     = Inr [\<lparr>k_close = 10, k_volume = 1\<rparr>, \<lparr>k_close = 10, k_volume = 1\<rparr>]
   \<and> total_score (mk_analysis rsi_none demo_macd ''AUSDT'' ''__proto__''
        [\<lparr>k_close = 10, k_volume = 1\<rparr>, \<lparr>k_close = 10, k_volume = 1\<rparr>]) = 0
   \<and> map (\<lambda>x. (s_symbol x, map fst (timeframes x), avg_score x)) (symbols (projr proto_analyze))
     = [(''AUSDT'', [''15m''], 20), (''DUSDT'', [''15m''], 0), (''CUSDT'', [''15m''], - 20)]
   \<and> entry_ok rsi_none demo_macd demo_provider [''__proto__'', ''15m'']
        (hd (symbols (projr proto_analyze)))
   \<and> map (\<lambda>x. (s_symbol x, map fst (timeframes x), avg_score x))
        (symbols (projr (demo_analyze (Some 10) None demo_tickers)))
     = [(''AUSDT'', [''15m'', ''1d''], 10), (''DUSDT'', [''15m'', ''1h'', ''1d''], 0),
        (''CUSDT'', [''15m'', ''1h'', ''1d''], - 20)]
   \<and> ''BUSDT'' \<notin> s_symbol ` set (symbols (projr (demo_analyze (Some 10) None demo_tickers)))"
proof -
  let ?p = "projr proto_analyze"
  let ?r = "projr (demo_analyze (Some 10) None demo_tickers)"
  have f: "fetchKlines demo_provider ''AUSDT'' ''__proto__'' 500
     = Inr [\<lparr>k_close = 10, k_volume = 1\<rparr>, \<lparr>k_close = 10, k_volume = 1\<rparr>]"
    by code_simp
  have z: "total_score (mk_analysis rsi_none demo_macd ''AUSDT'' ''__proto__''
        [\<lparr>k_close = 10, k_volume = 1\<rparr>, \<lparr>k_close = 10, k_volume = 1\<rparr>]) = 0"
    by code_simp
  have p: "analyze rsi_none demo_macd demo_provider [''__proto__'', ''15m''] (Some 10) None demo_tickers
           = Inr ?p"
    using demo_analyze_Inr(4) by (simp add: proto_analyze_def)
  have a: "analyze rsi_none demo_macd demo_provider [''15m'', ''1h'', ''1d''] (Some 10) None demo_tickers
           = Inr ?r"
    using demo_analyze_Inr(1) by (simp add: demo_analyze_def)
  have n: "map (\<lambda>x. (s_symbol x, map fst (timeframes x), avg_score x)) (symbols ?p)
     = [(''AUSDT'', [''15m''], 20), (''DUSDT'', [''15m''], 0), (''CUSDT'', [''15m''], - 20)]"
    by code_simp
  have m: "map (\<lambda>x. (s_symbol x, map fst (timeframes x), avg_score x)) (symbols ?r)
     = [(''AUSDT'', [''15m'', ''1d''], 10), (''DUSDT'', [''15m'', ''1h'', ''1d''], 0),
        (''CUSDT'', [''15m'', ''1h'', ''1d''], - 20)]"
    by code_simp
  have b: "\<forall>tf\<in>set [''15m'', ''1h'', ''1d'']. tf \<noteq> ''__proto__'' \<longrightarrow>
             (\<forall>kl. fetchKlines demo_provider ''BUSDT'' tf 500 = Inr kl \<longrightarrow> kl = [])"
    by (simp add: fetchKlines_def demo_provider_def)
  have "\<not> List.null (symbols ?p)"
    by code_simp
  then have h: "hd (symbols ?p) \<in> set (symbols ?p)"
    by simp
  from C3_avg_over_own_keys [OF p] h
  have e: "entry_ok rsi_none demo_macd demo_provider [''__proto__'', ''15m''] (hd (symbols ?p))"
    by blast
  from C3_avg_over_own_keys [OF a] b
  have d: "''BUSDT'' \<notin> s_symbol ` set (symbols ?r)"
    by blast
  show ?thesis
    by (intro conjI) (fact f z n e m d)+
qed

text \<open>
  C4 (what the code does). When \<open>axios.get\<close> throws for one timeframe of one of the
  first 100 candidate symbols, the error leaves both loops of the handler: the whole
  request ends with that error and no response, whatever the other units returned.
\<close>

theorem C4_fetch_failure_aborts:
  assumes "s \<in> set (take 100 (sort_key (\<lambda>s. - volume_24h s) symbols0))"
    and "tf \<in> set tfs"
    and "ax (symbol s) (mapInterval tf) 500 = Inl e"
  shows "analyze R M ax tfs limit ms symbols0 = Inl AxiosError"
proof -
  from assms(3) have "fetchKlines ax (symbol s) tf 500 = Inl e"
    by (simp add: fetchKlines_def)
  from tf_loop_fail [OF assms(2) this] have "tf_loop R M ax s tfs [] = Inl AxiosError" .
  from sym_loop_fail [OF assms(1) this] show ?thesis
    by (simp add: analyze_def Let_def)
qed

theorem C4_fetch_failure_aborts_witness:
  "demo_analyze (Some 10) None (demo_tickers @ [\<lparr>symbol = ''XUSDT'', volume_24h = 1\<rparr>])
     = Inl AxiosError
   \<and> \<not> isl (demo_analyze (Some 10) None demo_tickers)"
proof -
  have s: "\<lparr>symbol = ''XUSDT'', volume_24h = 1\<rparr>
           \<in> set (take 100 (sort_key (\<lambda>s. - volume_24h s)
                    (demo_tickers @ [\<lparr>symbol = ''XUSDT'', volume_24h = 1\<rparr>])))"
    by (simp add: demo_tickers_def)
  have t: "''1h'' \<in> set [''15m'', ''1h'', ''1d'']" by simp
  have e: "demo_provider (symbol \<lparr>symbol = ''XUSDT'', volume_24h = 1\<rparr>) (mapInterval ''1h'') 500
           = Inl AxiosError"
    by (simp add: demo_provider_def)
  from C4_fetch_failure_aborts
         [where ax = demo_provider and R = rsi_none and M = demo_macd and limit = "Some 10"
            and ms = None, OF s t e]
       demo_analyze_Inr(1)
  show ?thesis by (simp add: demo_analyze_def)
qed

text \<open>
  A \<open>min_score\<close> that is not a number removes every symbol: the test \<open>!isNaN(ms)\<close>
  guards an assignment without effect and the filter runs in any case.
\<close>

lemma analyze_min_score_NaN:
  assumes "analyze R M ax tfs limit (Some NaN) symbols0 = Inr resp"
  shows "symbols resp = [] \<and> total resp = 0"
  using assms by (rule analyze_Inr) (simp add: slice0_def split: option.splits)

lemma slice0_negative_limit: "slice0 [a, b, c] (Some (- 1)) = [a, b]"
  by (simp add: slice0_def)





section \<open>Properties of \<open>calcVolumeProfile\<close>\<close>

lemma vp_step_pos:
  assumes "lo \<le> hi" "bins \<noteq> 0"
  shows "0 < vp_step lo hi bins"
proof -
  define q where "q = (hi - lo) / real bins"
  from assms have "0 \<le> q" by (simp add: q_def)
  then have "0 < (if q = 0 then 1 else q)" by auto
  then show ?thesis unfolding vp_step_def Let_def q_def [symmetric] .
qed

lemma nat_min_eq_last: "0 \<le> f \<Longrightarrow> nat (min (int b) f) = b \<longleftrightarrow> int b \<le> f"
  by arith

lemma nat_min_eq_inner:
  "0 \<le> f \<Longrightarrow> int b < m \<Longrightarrow> nat (min m f) = b \<longleftrightarrow> (int b \<le> f \<and> f < int b + 1)"
  by arith

lemma bucket_of_range:
  assumes "bins \<noteq> 0"
  shows "0 \<le> bucket_of lo w bins c" "nat (bucket_of lo w bins c) < bins"
  using assms by (auto simp: bucket_of_def)

lemma bucket_of_iff:
  assumes w: "0 < w" and c: "lo \<le> c" and b: "b < bins"
  shows "nat (bucket_of lo w bins c) = b \<longleftrightarrow> in_bucket lo w bins b c"
proof -
  let ?x = "(c - lo) / w"
  from w c have x0: "0 \<le> ?x" by simp
  then have f0: "0 \<le> \<lfloor>?x\<rfloor>" by simp
  have le: "int b \<le> \<lfloor>?x\<rfloor> \<longleftrightarrow> lo + real b * w \<le> c"
  proof -
    have "int b \<le> \<lfloor>?x\<rfloor> \<longleftrightarrow> real b \<le> ?x" by (simp add: le_floor_iff)
    also from w have "\<dots> \<longleftrightarrow> real b * w \<le> c - lo" by (simp add: pos_le_divide_eq)
    also have "\<dots> \<longleftrightarrow> lo + real b * w \<le> c" by auto
    finally show ?thesis .
  qed
  have lt: "\<lfloor>?x\<rfloor> < int b + 1 \<longleftrightarrow> c < lo + (real b + 1) * w"
  proof -
    have "\<lfloor>?x\<rfloor> < int b + 1 \<longleftrightarrow> ?x < real b + 1"
      using floor_less_iff [of ?x "int b + 1"] by simp
    also from w have "\<dots> \<longleftrightarrow> c - lo < (real b + 1) * w" by (simp add: pos_divide_less_eq)
    also have "\<dots> \<longleftrightarrow> c < lo + (real b + 1) * w" by auto
    finally show ?thesis .
  qed
  from f0 have bo: "bucket_of lo w bins c = min (int bins - 1) \<lfloor>?x\<rfloor>"
    by (simp add: bucket_of_def)
  show ?thesis
  proof (cases "Suc b = bins")
    case True
    then have "int bins - 1 = int b" by auto
    then have "nat (bucket_of lo w bins c) = b \<longleftrightarrow> int b \<le> \<lfloor>?x\<rfloor>"
      unfolding bo using f0 by (simp only: nat_min_eq_last)
    with True le show ?thesis by (simp add: in_bucket_def)
  next
    case False
    with b have "int b < int bins - 1" by auto
    then have "nat (bucket_of lo w bins c) = b \<longleftrightarrow> (int b \<le> \<lfloor>?x\<rfloor> \<and> \<lfloor>?x\<rfloor> < int b + 1)"
      unfolding bo using f0 by (rule nat_min_eq_inner [rotated])
    with False le lt show ?thesis by (simp add: in_bucket_def)
  qed
qed

lemma length_fill_buckets:
  "length (fill_buckets lo w bins cs vs is bs) = length bs"
  by (induction "is" arbitrary: bs) (simp_all add: Let_def)

lemma fill_buckets_nth:
  assumes "length bs = bins" "bins \<noteq> 0" "b < bins"
  shows "fill_buckets lo w bins cs vs is bs ! b =
         bs ! b + (\<Sum>i\<leftarrow>is. if nat (bucket_of lo w bins (cs ! i)) = b then vol_at vs i else 0)"
  using assms(1)
proof (induction "is" arbitrary: bs)
  case Nil
  then show ?case by simp
next
  case (Cons i "is")
  let ?idx = "nat (bucket_of lo w bins (cs ! i))"
  let ?bs = "bs[?idx := bs ! ?idx + vol_at vs i]"
  from Cons.prems have l: "length ?bs = bins" by simp
  from bucket_of_range(2) [OF assms(2)] Cons.prems have r: "?idx < length bs" by simp
  have "?bs ! b = bs ! b + (if ?idx = b then vol_at vs i else 0)"
    using r assms(3) Cons.prems by (simp add: nth_list_update)
  with Cons.IH [OF l] show ?case by (simp add: Let_def)
qed

lemma find_poc_append:
  "find_poc bs (xs @ ys) p = find_poc bs ys (find_poc bs xs p)"
  by (induction xs arbitrary: p) simp_all

lemma find_poc_first_max:
  assumes "first_max (\<lambda>b. bs ! b) a p" "a \<le> n"
  shows "first_max (\<lambda>b. bs ! b) n (find_poc bs [a..<n] p)"
  using assms(2)
proof (induction n rule: dec_induct)
  case base
  with assms(1) show ?case by simp
next
  case (step n)
  let ?q = "find_poc bs [a..<n] p"
  from step have u: "[a..<Suc n] = [a..<n] @ [n]" by simp
  have r: "find_poc bs [a..<Suc n] p = (if bs ! n > bs ! ?q then n else ?q)"
    unfolding u find_poc_append by simp
  from step.IH have q: "?q < n" "\<forall>b<n. bs ! b \<le> bs ! ?q" "\<forall>b<?q. bs ! b < bs ! ?q"
    by (simp_all add: first_max_def)
  show ?case
  proof (cases "bs ! n > bs ! ?q")
    case True
    have "\<forall>b<n. bs ! b < bs ! n"
    proof (intro allI impI)
      fix b assume "b < n"
      with q(2) have "bs ! b \<le> bs ! ?q" by simp
      with True show "bs ! b < bs ! n" by simp
    qed
    then have "first_max (\<lambda>b. bs ! b) (Suc n) n"
      by (auto simp: first_max_def less_Suc_eq intro: less_imp_le)
    with True r show ?thesis by simp
  next
    case False
    with q have "first_max (\<lambda>b. bs ! b) (Suc n) ?q"
      by (auto simp: first_max_def less_Suc_eq)
    with False r show ?thesis by simp
  qed
qed

lemma calcVolumeProfile_buckets:
  assumes "closes \<noteq> []" "bins \<noteq> 0" "b < bins"
  shows "fill_buckets (Min (set closes)) (vp_step (Min (set closes)) (Max (set closes)) bins) bins
           closes volumes [0..<length closes] (replicate bins 0) ! b
         = bucket_volume closes volumes bins b"
proof -
  let ?lo = "Min (set closes)" and ?hi = "Max (set closes)"
  let ?w = "vp_step ?lo ?hi bins"
  from assms(1) have "?lo \<le> ?hi" by (simp add: Min_le_iff)
  then have w: "0 < ?w" using assms(2) by (rule vp_step_pos)
  have e: "(if nat (bucket_of ?lo ?w bins (closes ! i)) = b then vol_at volumes i else 0)
         = (if in_bucket ?lo ?w bins b (closes ! i) then vol_at volumes i else 0)"
    if "i \<in> set [0..<length closes]" for i
  proof -
    from that have "closes ! i \<in> set closes" by simp
    then have "?lo \<le> closes ! i" by simp
    from bucket_of_iff [OF w this assms(3)] show ?thesis by simp
  qed
  have "fill_buckets ?lo ?w bins closes volumes [0..<length closes] (replicate bins 0) ! b
        = (\<Sum>i\<leftarrow>[0..<length closes].
             if nat (bucket_of ?lo ?w bins (closes ! i)) = b then vol_at volumes i else 0)"
    using assms(2,3) by (simp add: fill_buckets_nth)
  also have "\<dots> = (\<Sum>i\<leftarrow>[0..<length closes].
             if in_bucket ?lo ?w bins b (closes ! i) then vol_at volumes i else 0)"
    using e by (intro arg_cong [where f = sum_list] map_cong refl)
  finally show ?thesis by (simp add: bucket_volume_def Let_def)
qed


lemma first_max_cong:
  assumes "\<And>b. b < bins \<Longrightarrow> f b = g b" "first_max f bins p"
  shows "first_max g bins p"
proof -
  from assms(2) have p: "p < bins" by (simp add: first_max_def)
  with assms(1) have fp: "f p = g p" by simp
  have "\<forall>b<bins. g b \<le> g p"
  proof (intro allI impI)
    fix b assume b: "b < bins"
    with assms(2) have "f b \<le> f p" by (simp add: first_max_def)
    with assms(1) [OF b] fp show "g b \<le> g p" by simp
  qed
  moreover have "\<forall>b<p. g b < g p"
  proof (intro allI impI)
    fix b assume b: "b < p"
    with assms(2) have "f b < f p" by (simp add: first_max_def)
    moreover from b p have "b < bins" by simp
    ultimately show "g b < g p" using assms(1) [of b] fp by simp
  qed
  ultimately show ?thesis using p by (simp add: first_max_def)
qed

lemma calcVolumeProfile_poc:
  assumes "closes \<noteq> []" "bins \<noteq> 0"
  shows "\<exists>p. first_max (bucket_volume closes volumes bins) bins p
     \<and> calcVolumeProfile closes volumes bins
         = Some (Min (set closes) + real p * vp_step (Min (set closes)) (Max (set closes)) bins)"
proof -
  let ?lo = "Min (set closes)"
  let ?w = "vp_step ?lo (Max (set closes)) bins"
  let ?bs = "fill_buckets ?lo ?w bins closes volumes [0..<length closes] (replicate bins 0)"
  let ?p = "find_poc ?bs [1..<bins] 0"
  have "first_max (\<lambda>b. ?bs ! b) 1 0" by (simp add: first_max_def)
  moreover from assms(2) have "1 \<le> bins" by simp
  ultimately have "first_max (\<lambda>b. ?bs ! b) bins ?p" by (rule find_poc_first_max)
  then have "first_max (bucket_volume closes volumes bins) bins ?p"
    by (rule first_max_cong [rotated]) (rule calcVolumeProfile_buckets [OF assms])
  moreover from assms(1) have "calcVolumeProfile closes volumes bins = Some (?lo + real ?p * ?w)"
    by (simp add: calcVolumeProfile_def Let_def)
  ultimately show ?thesis by blast
qed

text \<open>
  C9 (as the code has it). \<open>calcVolumeProfile\<close> with 20 bins returns \<open>null\<close> on the empty
  series. On a non-empty series it splits the prices from the minimum close upwards
  into 20 buckets of equal width, a twentieth of the range of the closes (width 1 when
  all closes are equal), adds the volume of each close to the bucket the close falls
  in, and returns the lower edge \<open>min + pocIdx * step\<close> of the first bucket with the
  maximum accumulated volume.
\<close>

theorem C9_poc_lower_edge:
  "calcVolumeProfile [] volumes 20 = None
   \<and> vp_step lo hi 20 = (if hi = lo then 1 else (hi - lo) / 20)
   \<and> (closes \<noteq> [] \<longrightarrow>
        (\<exists>p. first_max (bucket_volume closes volumes 20) 20 p
           \<and> calcVolumeProfile closes volumes 20
               = Some (Min (set closes) + real p * vp_step (Min (set closes)) (Max (set closes)) 20)))"
proof (intro conjI impI)
  show "calcVolumeProfile [] volumes 20 = None"
    by (simp add: calcVolumeProfile_def)
next
  show "vp_step lo hi 20 = (if hi = lo then 1 else (hi - lo) / 20)"
    by (simp add: vp_step_def Let_def)
next
  assume "closes \<noteq> []"
  then show "\<exists>p. first_max (bucket_volume closes volumes 20) 20 p
           \<and> calcVolumeProfile closes volumes 20
               = Some (Min (set closes) + real p * vp_step (Min (set closes)) (Max (set closes)) 20)"
    by (rule calcVolumeProfile_poc) simp
qed

theorem C9_poc_lower_edge_witness:
  "[0, 20] \<noteq> ([]::real list)
   \<and> calcVolumeProfile [0, 20] [1, 0] 20 = Some 0
   \<and> first_max (bucket_volume [0, 20] [1, 0] 20) 20 0
   \<and> calcVolumeProfile [] [1, 0] 20 = None"
proof -
  have v: "calcVolumeProfile [0, 20] [1, 0] 20 = Some 0" by code_simp
  from C9_poc_lower_edge [of "[1, 0]" 0 20 "[0, 20]"]
  obtain p where p: "first_max (bucket_volume [0, 20] [1, 0] 20) 20 p"
    and e: "calcVolumeProfile [0, 20] [1, 0] 20
            = Some (Min (set [0, 20]) + real p * vp_step (Min (set [0, 20])) (Max (set [0, 20])) 20)"
    and n: "calcVolumeProfile [] [1, 0] 20 = None"
    by auto
  from e v have "p = 0" by (simp add: vp_step_def)
  with p v n show ?thesis by simp
qed

text \<open>
  C9 as stated fails: for the closes 0 and 20 with the volumes 1 and 0 the bucket with
  the maximum volume is the first one, from 0 to 1; its midpoint is 1/2, and
  \<open>calcVolumeProfile\<close> returns its lower edge 0.
\<close>

theorem C9_midpoint_counterexample:
  "calcVolumeProfile [0, 20] [1, 0] 20 = Some 0 \<and> spec_pocPrice [0, 20] [1, 0] 20 = Some (1 / 2)"
  by code_simp

end
